theory Spec2Isabelle
  imports Complex_Main "HOL-Library.Word" "HOL-Library.Multiset"
begin

section \<open>Exceptions as values\<close>

text \<open>
  Every exception the Python code can raise is a value of \<open>error\<close>; a function that may
  raise returns \<open>error + 'a\<close>, with \<open>Inl\<close> for the exception. \<open>Raised s\<close> is an
  exception that the external parser raised (an I/O failure on a missing file, say); the
  generator does not catch it, so it propagates unchanged.
\<close>

datatype error =
    AssertionError
  | AttributeError
  | ZeroDivisionError
  | KeyError string
  | IndexError
  | ValueError
  | InvalidArgumentError
  | Raised string

definition and_then :: "error + 'a \<Rightarrow> ('a \<Rightarrow> error + 'b) \<Rightarrow> error + 'b" where
  "and_then m f = (case m of Inl e \<Rightarrow> Inl e | Inr x \<Rightarrow> f x)"

section \<open>contigDataset.py: the data generator\<close>

subsection \<open>Library functions the generator calls\<close>

text \<open>
  \<open>pad_sequences\<close> stores its result with dtype int32, so a parsed symbol is a 32-bit word.
\<close>

type_synonym symbol = "32 word"

text \<open>
  \<open>os.path.join(folder, path)\<close> on two arguments (POSIX): an absolute second argument
  replaces the first; otherwise the two are joined by one separator.
\<close>

definition path_join :: "string \<Rightarrow> string \<Rightarrow> string" where
  "path_join a b =
     (if b \<noteq> [] \<and> hd b = CHR ''/'' then b
      else if a = [] \<or> last a = CHR ''/'' then a @ b
      else a @ ''/'' @ b)"

text \<open>
  A slice \<open>xs[start:stop]\<close> of a one-dimensional array: a negative bound counts from the
  end, and every bound is clipped to the array, so a slice never raises.
\<close>

definition slice_bound :: "nat \<Rightarrow> int \<Rightarrow> nat" where
  "slice_bound n i = (if i < 0 then nat (max 0 (i + int n)) else min n (nat i))"

definition py_slice :: "'a list \<Rightarrow> int \<Rightarrow> int \<Rightarrow> 'a list" where
  "py_slice xs start stop =
     take (slice_bound (length xs) stop - slice_bound (length xs) start)
       (drop (slice_bound (length xs) start) xs)"

text \<open>\<open>np.arange(n)\<close>.\<close>

definition arange :: "nat \<Rightarrow> nat list" where
  "arange n = [0..<n]"

text \<open>
  \<open>Generator.shuffle\<close> on a one-dimensional array is the Fisher-Yates loop
  \<^verbatim>\<open>for i in reversed(range(1, n)): j = random_interval(bitgen, i); swap x[i], x[j]\<close>.
  The bit generator is a parameter: \<open>random_interval r i\<close> returns the drawn index and the
  next state of the bit generator. \<open>shuffle_raw ri k r xs\<close> runs the loop for
  \<open>i = k, k - 1, ..., 1\<close>.
\<close>

fun shuffle_raw :: "('r \<Rightarrow> nat \<Rightarrow> nat \<times> 'r) \<Rightarrow> nat \<Rightarrow> 'r \<Rightarrow> 'a list \<Rightarrow> 'a list \<times> 'r" where
  "shuffle_raw ri 0 r xs = (xs, r)"
| "shuffle_raw ri (Suc i) r xs =
     (case ri r (Suc i) of
        (j, r') \<Rightarrow> shuffle_raw ri i r' (xs[j := xs ! Suc i, Suc i := xs ! j]))"

definition rg_shuffle :: "('r \<Rightarrow> nat \<Rightarrow> nat \<times> 'r) \<Rightarrow> 'r \<Rightarrow> 'a list \<Rightarrow> 'a list \<times> 'r" where
  "rg_shuffle ri r xs = shuffle_raw ri (length xs - 1) r xs"

text \<open>
  \<open>pad_sequences(sequences, maxlen, padding='post', truncating='post')\<close> with the default
  pad value 0. The result array is allocated as \<open>np.full((num_samples, maxlen), 0)\<close>, which
  raises ValueError on a negative \<open>maxlen\<close>; with \<open>maxlen\<close> absent it is \<open>np.max\<close> of the
  lengths, which raises ValueError on no sequence at all. Row \<open>idx\<close> then receives
  \<open>s[:maxlen]\<close> at its start.
\<close>

definition pad_post :: "nat \<Rightarrow> symbol list \<Rightarrow> symbol list" where
  "pad_post maxlen s = take maxlen s @ replicate (maxlen - length s) 0"

definition pad_sequences :: "symbol list list \<Rightarrow> int option \<Rightarrow> error + symbol list list" where
  "pad_sequences sequences maxlen =
     (case maxlen of
        None \<Rightarrow>
          (case map length sequences of
             [] \<Rightarrow> Inl ValueError
           | l # ls \<Rightarrow> Inr (map (pad_post (fold max ls l)) sequences))
      | Some m \<Rightarrow>
          if m < 0 then Inl ValueError else Inr (map (pad_post (nat m)) sequences))"

text \<open>
  \<open>to_categorical(y, num_classes)\<close>: the class count is \<open>np.max(y) + 1\<close> when
  \<open>num_classes\<close> is falsy (None or 0), a ValueError when there is no label to take
  the maximum of; \<open>np.zeros((n, num_classes))\<close> raises ValueError on a negative count; the
  assignment \<open>categorical[np.arange(n), y] = 1\<close> raises IndexError on a label outside
  \<open>[-num_classes, num_classes)\<close> and reads a negative label from the end.
\<close>

definition one_hot :: "nat \<Rightarrow> nat \<Rightarrow> real list" where
  "one_hot n k = map (\<lambda>j. if j = k then 1 else 0) [0..<n]"

definition max_plus_one :: "int list \<Rightarrow> error + int" where
  "max_plus_one y = (case y of [] \<Rightarrow> Inl ValueError | l # ls \<Rightarrow> Inr (fold max ls l + 1))"

definition to_categorical :: "int list \<Rightarrow> int option \<Rightarrow> error + real list list" where
  "to_categorical y num_classes =
     and_then
       (case num_classes of
          None \<Rightarrow> max_plus_one y
        | Some c \<Rightarrow> if c = 0 then max_plus_one y else Inr c)
       (\<lambda>nc.
          if nc < 0 then Inl ValueError
          else if list_all (\<lambda>l. - nc \<le> l \<and> l < nc) y
          then Inr (map (\<lambda>l. one_hot (nat nc) (nat (if l < 0 then l + nc else l))) y)
          else Inl IndexError)"

subsection \<open>The parser, the environment and the generator object\<close>

text \<open>
  A parser object has the attribute \<open>ndims\<close> and is callable on a sample identifier and a
  file path. A parser that declares \<open>ndims = 1\<close> returns a one-dimensional array (field
  \<open>call1\<close>), one that declares \<open>ndims = 2\<close> a list of rows (field \<open>call2\<close>); either
  call may raise.
\<close>

record parser =
  ndims :: int
  call1 :: "nat \<Rightarrow> string \<Rightarrow> string + symbol list"
  call2 :: "nat \<Rightarrow> string \<Rightarrow> string + symbol list list"

text \<open>
  What the generator takes from its libraries: how numpy seeds a bit generator
  (\<open>np.random.default_rng\<close>), how the bit generator draws an index, and the registry
  \<open>contigParser.parsers\<close> from parser names to parser constructors taking the keyword
  arguments.
\<close>

record ('r, 'k) env =
  default_rng :: "int \<Rightarrow> 'r"
  random_interval :: "'r \<Rightarrow> nat \<Rightarrow> nat \<times> 'r"
  parsers :: "string \<Rightarrow> ('k \<Rightarrow> parser) option"

text \<open>
  The attributes of a \<open>ContigDataGenerator\<close>. An attribute that \<open>__init__\<close> may leave
  unassigned (\<open>rg\<close>, \<open>indexes\<close>) is an option: \<open>None\<close> means that reading it raises
  AttributeError.
\<close>

record 'r ContigDataGenerator =
  paths :: "string list"
  sequence_length :: "int option"
  labels :: "int list"
  folder :: string
  batch_size :: int
  n_classes :: "int option"
  shuffle :: bool
  rg :: "'r option"
  parser :: parser
  indexes :: "nat list option"

datatype parser_arg = ByName string | Instance parser

text \<open>The batch of features: one padded array (1-D parser) or a list of them (2-D parser).\<close>

datatype batch_X = Array2 "symbol list list" | Arrays "symbol list list list"

subsection \<open>The methods\<close>

text \<open>\<open>on_epoch_end\<close>: a new permutation from the generator's own bit generator, whose state
  is kept for the next epoch; nothing happens without shuffling. Reading \<open>self.rg\<close> on an
  object that has none raises AttributeError (\<open>__init__\<close> assigns it whenever it sets
  \<open>shuffle\<close>).\<close>

definition on_epoch_end ::
  "('r, 'k) env \<Rightarrow> 'r ContigDataGenerator \<Rightarrow> error + 'r ContigDataGenerator" where
  "on_epoch_end e g =
     (if shuffle g then
        (case rg g of
           None \<Rightarrow> Inl AttributeError
         | Some r \<Rightarrow>
             (case rg_shuffle (random_interval e) r (arange (length (labels g))) of
                (ix, r') \<Rightarrow> Inr (g\<lparr>rg := Some r', indexes := Some ix\<rparr>)))
      else Inr g)"

text \<open>
  \<open>__init__\<close>. \<open>entropy\<close> is what the operating system hands \<open>default_rng\<close> when
  \<open>random_state\<close> is None. A parser given by name is looked up in the registry (KeyError on
  an unknown name) and built from the keyword arguments.
\<close>

definition init ::
  "('r, 'k) env \<Rightarrow> int \<Rightarrow> string list \<Rightarrow> int list \<Rightarrow> string \<Rightarrow> parser_arg \<Rightarrow> int \<Rightarrow>
     int option \<Rightarrow> int option \<Rightarrow> bool \<Rightarrow> int option \<Rightarrow> 'k \<Rightarrow> error + 'r ContigDataGenerator" where
  "init e entropy paths0 labels0 folder0 parser0 batch_size0 sequence_length0 n_classes0
        shuffle0 random_state parser_kwargs =
     and_then
       (case parser0 of
          ByName nm \<Rightarrow>
            (case parsers e nm of None \<Rightarrow> Inl (KeyError nm) | Some mk \<Rightarrow> Inr (mk parser_kwargs))
        | Instance p \<Rightarrow> Inr p)
       (\<lambda>p. on_epoch_end e
          \<lparr>paths = paths0, sequence_length = sequence_length0, labels = labels0,
           folder = folder0, batch_size = batch_size0, n_classes = n_classes0,
           shuffle = shuffle0,
           rg = (if shuffle0
                 then Some (default_rng e (case random_state of None \<Rightarrow> entropy | Some s \<Rightarrow> s))
                 else None),
           parser = p, indexes = None\<rparr>)"

text \<open>\<open>__len__\<close>: Python's floor division, which raises on a zero divisor.\<close>

definition len :: "'r ContigDataGenerator \<Rightarrow> error + int" where
  "len g =
     (if batch_size g = 0 then Inl ZeroDivisionError
      else Inr (int (length (labels g)) div batch_size g))"

text \<open>The loop of \<open>__data_generation\<close> that parses the samples in order; the first
  exception ends it. \<open>self.paths[id]\<close> raises IndexError past the end of \<open>paths\<close>.\<close>

fun parse_all ::
  "(nat \<Rightarrow> string \<Rightarrow> string + 'a) \<Rightarrow> string \<Rightarrow> string list \<Rightarrow> nat list \<Rightarrow> error + 'a list" where
  "parse_all f fld ps [] = Inr []"
| "parse_all f fld ps (i # ids) =
     (if i < length ps then
        (case f i (path_join fld (ps ! i)) of
           Inl x \<Rightarrow> Inl (Raised x)
         | Inr s \<Rightarrow> and_then (parse_all f fld ps ids) (\<lambda>ss. Inr (s # ss)))
      else Inl IndexError)"

text \<open>The list comprehension that pads every contig of a 2-D batch.\<close>

fun pad_each :: "symbol list list list \<Rightarrow> int option \<Rightarrow> error + symbol list list list" where
  "pad_each [] maxlen = Inr []"
| "pad_each (contig # rest) maxlen =
     and_then (pad_sequences contig maxlen) (\<lambda>x.
       and_then (pad_each rest maxlen) (\<lambda>xs. Inr (x # xs)))"

text \<open>\<open>self.labels[temp_IDs]\<close>.\<close>

definition take_labels :: "int list \<Rightarrow> nat list \<Rightarrow> error + int list" where
  "take_labels ls ids =
     (if list_all (\<lambda>i. i < length ls) ids then Inr (map (\<lambda>i. ls ! i) ids) else Inl IndexError)"

definition data_generation ::
  "'r ContigDataGenerator \<Rightarrow> nat list \<Rightarrow> error + batch_X \<times> real list list" where
  "data_generation g temp_IDs =
     (if ndims (parser g) \<noteq> 1 \<and> ndims (parser g) \<noteq> 2 then Inl AssertionError
      else if ndims (parser g) = 1 then
        and_then (parse_all (call1 (parser g)) (folder g) (paths g) temp_IDs) (\<lambda>sequences.
        and_then (pad_sequences sequences (sequence_length g)) (\<lambda>X.
        and_then (take_labels (labels g) temp_IDs) (\<lambda>ls.
        and_then (to_categorical ls (n_classes g)) (\<lambda>y. Inr (Array2 X, y)))))
      else
        and_then (parse_all (call2 (parser g)) (folder g) (paths g) temp_IDs) (\<lambda>sequences.
        and_then (pad_each sequences (sequence_length g)) (\<lambda>X.
        and_then (take_labels (labels g) temp_IDs) (\<lambda>ls.
        and_then (to_categorical ls (n_classes g)) (\<lambda>y. Inr (Arrays X, y))))))"

text \<open>\<open>__getitem__\<close>: the indexes of the batch are a slice of \<open>self.indexes\<close>
  (reading that attribute comes first), and the batch is generated from them.\<close>

definition batch_indexes :: "'r ContigDataGenerator \<Rightarrow> int \<Rightarrow> error + nat list" where
  "batch_indexes g index =
     (case indexes g of
        None \<Rightarrow> Inl AttributeError
      | Some ix \<Rightarrow> Inr (py_slice ix (index * batch_size g) ((index + 1) * batch_size g)))"

definition getitem ::
  "'r ContigDataGenerator \<Rightarrow> int \<Rightarrow> error + batch_X \<times> real list list" where
  "getitem g index = and_then (batch_indexes g index) (data_generation g)"

text \<open>The number of samples of a batch: \<open>len(X_batch)\<close> and \<open>y_batch.shape[0]\<close>.\<close>

fun len_X :: "batch_X \<Rightarrow> nat" where
  "len_X (Array2 rows) = length rows"
| "len_X (Arrays contigs) = length contigs"

text \<open>\<open>k\<close> epoch resets in a row, as Keras calls them.\<close>

fun epochs :: "('r, 'k) env \<Rightarrow> nat \<Rightarrow> 'r ContigDataGenerator \<Rightarrow> error + 'r ContigDataGenerator" where
  "epochs e 0 g = Inr g"
| "epochs e (Suc k) g = and_then (on_epoch_end e g) (epochs e k)"

subsection \<open>Predicates used in the statements\<close>

text \<open>
  numpy's \<open>random_interval(bitgen, i)\<close> draws an index in \<open>[0, i]\<close>; \<open>bounded_draws\<close> says so
  of the bit generator taken as a parameter.
\<close>

definition bounded_draws :: "('r \<Rightarrow> nat \<Rightarrow> nat \<times> 'r) \<Rightarrow> bool" where
  "bounded_draws ri = (\<forall>r n. fst (ri r n) \<le> n)"

text \<open>
  States of the generator: \<open>self.indexes\<close>, when assigned, has one entry per label
  (\<open>lengths_ok\<close>) and is a permutation of \<open>arange(len(labels))\<close> (\<open>is_permutation\<close>);
  a \<open>usable\<close> generator shuffles, has its bit generator and has such a permutation.
\<close>

definition lengths_ok :: "'r ContigDataGenerator \<Rightarrow> bool" where
  "lengths_ok g = (case indexes g of None \<Rightarrow> True | Some ix \<Rightarrow> length ix = length (labels g))"

definition is_permutation :: "'r ContigDataGenerator \<Rightarrow> bool" where
  "is_permutation g =
     (case indexes g of None \<Rightarrow> False | Some ix \<Rightarrow> mset ix = mset (arange (length (labels g))))"

definition usable :: "'r ContigDataGenerator \<Rightarrow> bool" where
  "usable g = (shuffle g \<and> rg g \<noteq> None \<and> is_permutation g)"


text \<open>
  A generator on which batch generation cannot fail: \<open>paths\<close> has an entry for every label
  and the parser, 1-D or 2-D, succeeds on every sample (\<open>every_sample_parses\<close>);
  \<open>n_classes\<close> is given and positive and every label is a valid column index for it
  (\<open>labels_fit\<close>); and \<open>sequence_length\<close> is given and not negative
  (\<open>length_given\<close>).
\<close>

definition every_sample_parses :: "'r ContigDataGenerator \<Rightarrow> bool" where
  "every_sample_parses g =
     (length (labels g) \<le> length (paths g) \<and>
      (if ndims (parser g) = 1
       then list_all (\<lambda>i. \<not> isl (call1 (parser g) i (path_join (folder g) (paths g ! i))))
              [0..<length (labels g)]
       else ndims (parser g) = 2 \<and>
            list_all (\<lambda>i. \<not> isl (call2 (parser g) i (path_join (folder g) (paths g ! i))))
              [0..<length (labels g)]))"

definition labels_fit :: "'r ContigDataGenerator \<Rightarrow> bool" where
  "labels_fit g =
     (case n_classes g of
        None \<Rightarrow> False
      | Some c \<Rightarrow> 0 < c \<and> list_all (\<lambda>l. - c \<le> l \<and> l < c) (labels g))"

definition length_given :: "'r ContigDataGenerator \<Rightarrow> bool" where
  "length_given g = (case sequence_length g of None \<Rightarrow> False | Some m \<Rightarrow> 0 \<le> m)"

definition well_configured :: "'r ContigDataGenerator \<Rightarrow> bool" where
  "well_configured g = (every_sample_parses g \<and> labels_fit g \<and> length_given g)"

subsection \<open>A concrete generator\<close>

text \<open>
  A parser whose sample \<open>i\<close> is \<open>i + 1\<close> ones (one row of twos and a row \<open>[3]\<close> as a
  2-D parser) and that fails on the path \<open>missing\<close>; a bit generator that replays a
  pre-drawn list of numbers, clipped to the bound; and the generators that \<open>__init__\<close>
  builds from them on five samples.
\<close>

definition demo_parser :: parser where
  "demo_parser =
     \<lparr>ndims = 1,
      call1 = (\<lambda>i p. if p = ''missing'' then Inl ''no such file'' else Inr (replicate (Suc i) 1)),
      call2 = (\<lambda>i p. Inr [replicate (Suc i) 2, [3]])\<rparr>"

definition demo_env :: "(nat list, unit) env" where
  "demo_env =
     \<lparr>default_rng = (\<lambda>s. if s = 42 then [1, 0, 2, 1, 3] else []),
      random_interval = (\<lambda>r i. case r of [] \<Rightarrow> (0, []) | d # ds \<Rightarrow> (min i d, ds)),
      parsers = (\<lambda>nm. if nm = ''max'' then Some (\<lambda>_. demo_parser) else None)\<rparr>"

definition demo_gen :: "nat list ContigDataGenerator" where
  "demo_gen =
     \<lparr>paths = [''a'', ''b'', ''c'', ''e'', ''f''], sequence_length = Some 2,
      labels = [0, 1, 0, 1, 1], folder = ''d'', batch_size = 2, n_classes = Some 2,
      shuffle = True, rg = Some [3], parser = demo_parser, indexes = Some [3, 4, 2, 0, 1]\<rparr>"

definition demo_gen_unshuffled :: "nat list ContigDataGenerator" where
  "demo_gen_unshuffled =
     \<lparr>paths = [''a'', ''b'', ''c'', ''e'', ''f''], sequence_length = Some 2,
      labels = [0, 1, 0, 1, 1], folder = ''d'', batch_size = 2, n_classes = Some 2,
      shuffle = False, rg = None, parser = demo_parser, indexes = None\<rparr>"


section \<open>model.py: masked lengths and the CNN model\<close>

subsection \<open>\<open>masked_lengths\<close>\<close>

text \<open>
  \<open>tf.math.argmax\<close> along an axis returns the index of the first largest entry, with
  \<open>False < True\<close> on booleans; \<open>argmax_from xs i best pos\<close> scans \<open>xs\<close>, whose first
  element has index \<open>i\<close>, knowing the largest entry \<open>best\<close> so far and its index \<open>pos\<close>.
  On an empty axis TensorFlow raises InvalidArgumentError (the guard is in
  \<open>masked_lengths\<close>).
\<close>

fun argmax_from :: "'a::linorder list \<Rightarrow> nat \<Rightarrow> 'a \<Rightarrow> nat \<Rightarrow> nat" where
  "argmax_from [] i best pos = pos"
| "argmax_from (x # xs) i best pos =
     (if best < x then argmax_from xs (Suc i) x i else argmax_from xs (Suc i) best pos)"

definition argmax :: "'a::linorder list \<Rightarrow> nat" where
  "argmax xs = (case xs of [] \<Rightarrow> 0 | x # rest \<Rightarrow> argmax_from rest 1 x 0)"

text \<open>
  \<open>masked_lengths(mask)\<close> on a mask of shape \<open>(n, width)\<close>, given as its \<open>n\<close> rows (each
  of length \<open>width\<close>): \<open>tf.shape(mask)[1] - argmax(mask[:, ::-1], axis=1)\<close>.
\<close>

definition masked_lengths :: "nat \<Rightarrow> bool list list \<Rightarrow> error + int list" where
  "masked_lengths width mask_rows =
     (if width = 0 then Inl InvalidArgumentError
      else Inr (map (\<lambda>row. int width - int (argmax (rev row))) mask_rows))"

text \<open>\<open>tf.sequence_mask(l, width)\<close> for one length: \<open>l\<close> times True, then False.\<close>

definition sequence_mask :: "nat \<Rightarrow> nat \<Rightarrow> bool list" where
  "sequence_mask l width = replicate l True @ replicate (width - l) False"

subsection \<open>The model object\<close>

text \<open>
  A configuration dictionary (what a layer's \<open>get_config()\<close> returns) is a list of
  entries in insertion order; a layer is known here by its name and that dictionary.
\<close>

datatype cfg = CStr string | CNat nat | CReal real | CBool bool

type_synonym config = "(string \<times> cfg) list"

record layer =
  layer_name :: string
  layer_config :: config

text \<open>
  The trained weights of the model, each a parameter. \<open>embeddings k\<close> is row \<open>k\<close> of the
  embedding table. \<open>resize\<close> is what \<open>Resizing(1, length)\<close> (bilinear interpolation to
  \<open>sequence_target_length\<close> positions) computes for one embedded node that is not empty.
  \<open>hidden training x\<close> is the vector that \<open>conv1\<close>, \<open>maxpool\<close>, \<open>dense1\<close>,
  \<open>globalmaxpool\<close>, \<open>dense2\<close> and \<open>dropout\<close> produce for one resized node \<open>x\<close>; these
  Keras layers work on each node (their batch axis) on its own, on the fixed shape that the
  resizer delivers (for \<open>training = True\<close>, with the dropout mask drawn for that call).
  \<open>kernel\<close> and \<open>bias\<close> are the weights of the \<open>classifier\<close> layer. Numbers are real
  numbers: float32 rounding is not modelled.
\<close>

record weights =
  embeddings :: "nat \<Rightarrow> real list"
  resize :: "real list list \<Rightarrow> real list list"
  hidden :: "bool \<Rightarrow> real list list \<Rightarrow> real list"
  kernel :: "nat \<Rightarrow> nat \<Rightarrow> real"
  bias :: "nat \<Rightarrow> real"

record CNNModel =
  model_name :: string
  model_n_classes :: nat
  model_voc_size :: nat
  layers :: "layer list"
  model_weights :: weights

text \<open>The module-level defaults.\<close>

definition embed_dim :: nat where "embed_dim = 4"
definition embed_init_w :: "real list list" where
  "embed_init_w = [[1, 0, 0, 0], [0, 1, 0, 0], [0, 0, 1, 0], [0, 0, 0, 1], [1, 1, 1, 1]]"
definition sequence_target_length :: nat where "sequence_target_length = 100"
definition conv_filters_1 :: nat where "conv_filters_1 = 12"
definition conv_window_length_1 :: nat where "conv_window_length_1 = 8"
definition pool_size_1 :: nat where "pool_size_1 = 8"
definition dense_units_1 :: nat where "dense_units_1 = 32"
definition dense_units_2 :: nat where "dense_units_2 = 64"
definition dropout_probability :: real where "dropout_probability = 0.5"

text \<open>
  \<open>Layer.get_config()\<close> of Keras starts every layer's dictionary with the layer's name,
  \<open>trainable\<close> and \<open>dtype\<close>; a layer class adds its constructor arguments. The entries
  written out below are those that \<open>CNNModel.__init__\<close> passes; the further entries that
  Keras fills with its own defaults are left out. \<open>Resizing1D.get_config\<close> (in model.py)
  adds \<open>interpolation\<close> and \<open>length\<close> to the base dictionary.
\<close>

definition base_config :: "string \<Rightarrow> config" where
  "base_config nm = [(''name'', CStr nm), (''trainable'', CBool True), (''dtype'', CStr ''float32'')]"

definition keras_layer :: "string \<Rightarrow> config \<Rightarrow> layer" where
  "keras_layer nm args = \<lparr>layer_name = nm, layer_config = base_config nm @ args\<rparr>"

definition Resizing1D :: "nat \<Rightarrow> string \<Rightarrow> string \<Rightarrow> layer" where
  "Resizing1D length0 interpolation nm =
     \<lparr>layer_name = nm,
      layer_config = base_config nm @ [(''interpolation'', CStr interpolation), (''length'', CNat length0)]\<rparr>"

text \<open>
  \<open>CNNModel.__init__\<close>. \<open>model.layers\<close> lists the layers in the order in which they are
  assigned. The \<open>MaxPool1D\<close> layer is given no name, so Keras names it from its counter of
  unnamed layers (\<open>max_pooling1d\<close>, \<open>max_pooling1d_1\<close>, ...): that name is the parameter
  \<open>auto_name\<close>. \<open>w\<close> are the weights as Keras initialises them.
\<close>

definition CNNModel_init :: "string \<Rightarrow> weights \<Rightarrow> nat \<Rightarrow> nat \<Rightarrow> real \<Rightarrow> string \<Rightarrow> CNNModel" where
  "CNNModel_init auto_name w voc_size n_classes0 bias_init nm =
     \<lparr>model_name = nm, model_n_classes = n_classes0, model_voc_size = voc_size,
      layers =
        [keras_layer ''embed_layer''
           [(''input_dim'', CNat voc_size), (''output_dim'', CNat embed_dim), (''mask_zero'', CBool True)],
         Resizing1D sequence_target_length ''bilinear'' ''resizer'',
         keras_layer ''conv1''
           [(''filters'', CNat conv_filters_1), (''kernel_size'', CNat conv_window_length_1),
            (''activation'', CStr ''relu''), (''padding'', CStr ''valid''),
            (''data_format'', CStr ''channels_last''), (''use_bias'', CBool True),
            (''bias_initializer'', CReal bias_init)],
         keras_layer auto_name [(''pool_size'', CNat pool_size_1)],
         keras_layer ''globalmaxpool'' [],
         keras_layer ''dense1''
           [(''units'', CNat dense_units_1), (''activation'', CStr ''relu''), (''use_bias'', CBool True)],
         keras_layer ''dense2''
           [(''units'', CNat dense_units_2), (''activation'', CStr ''relu''), (''use_bias'', CBool True)],
         keras_layer ''dropout'' [(''rate'', CReal dropout_probability)],
         keras_layer ''classifier''
           [(''units'', CNat n_classes0), (''activation'', CStr ''softmax''), (''use_bias'', CBool True),
            (''bias_initializer'', CReal bias_init)],
         keras_layer ''globalaveragepool'' []],
      model_weights = w\<rparr>"

subsection \<open>The forward pass\<close>

text \<open>
  A float32 value is a real number or NaN (the mean over no node is \<open>0 / 0\<close>). The result
  of \<open>tf.squeeze\<close> is a vector, or a scalar when the one remaining axis has size 1 too.
\<close>

datatype fl = Num real | NaN

datatype tensor = Scalar fl | Vector "fl list"

fun shape :: "tensor \<Rightarrow> nat list" where
  "shape (Scalar v) = []"
| "shape (Vector vs) = [length vs]"

fun entries :: "tensor \<Rightarrow> fl list" where
  "entries (Scalar v) = [v]"
| "entries (Vector vs) = vs"

definition softmax :: "real list \<Rightarrow> real list" where
  "softmax z = map (\<lambda>x. exp x / sum_list (map exp z)) z"

text \<open>The \<open>classifier\<close> layer on one node: \<open>Dense(n_classes, activation='softmax')\<close>.\<close>

definition classifier :: "CNNModel \<Rightarrow> real list \<Rightarrow> real list" where
  "classifier m x =
     softmax
       (map (\<lambda>j. sum_list (map (\<lambda>k. x ! k * kernel (model_weights m) k j) [0..<length x])
                 + bias (model_weights m) j)
          [0..<model_n_classes m])"

text \<open>
  \<open>GlobalAveragePooling1D\<close> on \<open>tf.expand_dims(x, axis=0)\<close>, a tensor of shape
  \<open>(1, num_nodes, channels)\<close>: the mean over the nodes, for each channel.
\<close>

definition globalaveragepool :: "nat \<Rightarrow> real list list \<Rightarrow> fl list" where
  "globalaveragepool channels rows =
     (if rows = [] then replicate channels NaN
      else map (\<lambda>j. Num (sum_list (map (\<lambda>r. r ! j) rows) / real (length rows))) [0..<channels])"

text \<open>\<open>tf.squeeze\<close> of a tensor of shape \<open>(1, channels)\<close> removes every axis of size 1.\<close>

definition squeeze :: "fl list \<Rightarrow> tensor" where
  "squeeze row = (case row of [v] \<Rightarrow> Scalar v | _ \<Rightarrow> Vector row)"

text \<open>
  \<open>embed_layer\<close> on the contig. The layer is built at its first call: the initializer
  reshapes the 20 numbers of \<open>embed_init_w\<close> to \<open>(voc_size, embed_dim)\<close>, which numpy
  refuses with ValueError unless the sizes agree. The lookup of a symbol outside
  \<open>[0, voc_size)\<close> raises InvalidArgumentError; a symbol is an int32, so a negative one
  reads as an unsigned number beyond every vocabulary size.
\<close>

definition embed_layer :: "CNNModel \<Rightarrow> symbol list list \<Rightarrow> error + real list list list" where
  "embed_layer m contig =
     (if model_voc_size m * embed_dim \<noteq> length (concat embed_init_w) then Inl ValueError
      else if list_all (list_all (\<lambda>s. unat s < model_voc_size m)) contig
      then Inr (map (map (\<lambda>s. embeddings (model_weights m) (unat s))) contig)
      else Inl InvalidArgumentError)"

text \<open>
  \<open>Resizing1D.call\<close> on the ragged tensor of embedded nodes: \<open>__resize_node\<close> on every
  node. Resizing an image of width 0 raises InvalidArgumentError.
\<close>

definition resizer :: "CNNModel \<Rightarrow> real list list list \<Rightarrow> error + real list list list" where
  "resizer m x =
     (if list_all (\<lambda>node. node \<noteq> []) x then Inr (map (resize (model_weights m)) x)
      else Inl InvalidArgumentError)"

text \<open>
  \<open>__transform_contig\<close>: embed, resize, the hidden layers and the classifier on every
  node, then the vote by averaging, and \<open>tf.squeeze\<close>.
\<close>

definition transform_contig :: "CNNModel \<Rightarrow> bool \<Rightarrow> symbol list list \<Rightarrow> error + tensor" where
  "transform_contig m training contig =
     and_then (embed_layer m contig) (\<lambda>embedded.
     and_then (resizer m embedded) (\<lambda>resized.
       Inr (squeeze
         (globalaveragepool (model_n_classes m)
            (map (\<lambda>x. classifier m (hidden (model_weights m) training x)) resized)))))"

definition transform_contig_train :: "CNNModel \<Rightarrow> symbol list list \<Rightarrow> error + tensor" where
  "transform_contig_train m contig = transform_contig m True contig"

definition transform_contig_eval :: "CNNModel \<Rightarrow> symbol list list \<Rightarrow> error + tensor" where
  "transform_contig_eval m contig = transform_contig m False contig"

text \<open>
  \<open>tf.map_fn(fn, elems, fn_output_signature)\<close>: \<open>fn\<close> on every element in order, the
  results stacked; an exception of \<open>fn\<close> propagates, and a result whose shape is not the
  shape of the signature raises ValueError.
\<close>

fun map_fn :: "('a \<Rightarrow> error + tensor) \<Rightarrow> 'a list \<Rightarrow> nat list \<Rightarrow> error + tensor list" where
  "map_fn fn [] signature = Inr []"
| "map_fn fn (x # xs) signature =
     and_then (fn x) (\<lambda>y.
       if shape y = signature
       then and_then (map_fn fn xs signature) (\<lambda>ys. Inr (y # ys))
       else Inl ValueError)"

text \<open>\<open>CNNModel.call\<close>; \<open>training\<close> is None, True or False, and only True trains.\<close>

definition call :: "CNNModel \<Rightarrow> bool option \<Rightarrow> symbol list list list \<Rightarrow> error + tensor list" where
  "call m training inputs =
     map_fn (if training = Some True then transform_contig_train m else transform_contig_eval m)
       inputs [2]"

text \<open>
  A contig that the embedding and the resizer accept: no node is empty and every symbol is in
  the vocabulary.
\<close>

definition valid_contig :: "CNNModel \<Rightarrow> symbol list list \<Rightarrow> bool" where
  "valid_contig m contig =
     list_all (\<lambda>node. node \<noteq> [] \<and> list_all (\<lambda>s. unat s < model_voc_size m) node) contig"

subsection \<open>Configuration\<close>

text \<open>The dictionary that \<open>CNNModel.get_config\<close> returns, by its four keys.\<close>

record model_config =
  cfg_name :: string
  cfg_n_classes :: nat
  cfg_voc_size :: nat
  cfg_layers :: "config list"

definition get_config :: "CNNModel \<Rightarrow> model_config" where
  "get_config m =
     \<lparr>cfg_name = model_name m, cfg_n_classes = model_n_classes m,
      cfg_voc_size = model_voc_size m, cfg_layers = map layer_config (layers m)\<rparr>"

text \<open>
  The dictionary comprehension of \<open>from_config\<close>: every layer configuration under its
  \<open>name\<close> entry (KeyError without one); a later entry with the same name replaces an
  earlier one.
\<close>

fun layer_configs_of :: "config list \<Rightarrow> error + (cfg \<times> config) list" where
  "layer_configs_of [] = Inr []"
| "layer_configs_of (c # cs) =
     (case map_of c ''name'' of
        None \<Rightarrow> Inl (KeyError ''name'')
      | Some nm \<Rightarrow> and_then (layer_configs_of cs) (\<lambda>d. Inr ((nm, c) # d)))"

definition dict_get :: "('k \<times> 'v) list \<Rightarrow> 'k \<Rightarrow> 'v option" where
  "dict_get d k = map_of (rev d) k"

text \<open>
  \<open>tf.keras.layers.deserialize(config)\<close> expects the serialized form of a layer, a
  dictionary with the entries \<open>class_name\<close> and \<open>config\<close>, and raises ValueError
  (improper config format) on a dictionary without them; what it builds from a proper one is
  the parameter \<open>build\<close>.
\<close>

definition deserialize :: "(config \<Rightarrow> error + layer) \<Rightarrow> config \<Rightarrow> error + layer" where
  "deserialize build c =
     (if map_of c ''class_name'' = None \<or> map_of c ''config'' = None then Inl ValueError
      else build c)"

text \<open>
  The loop of \<open>from_config\<close> over \<open>model.layers\<close>: the configuration stored under the
  layer's name (KeyError when there is none) is deserialized. The assignment
  \<open>model.layers[idx] = replacement_layer\<close> writes into the list that the property
  \<open>layers\<close> has just built, not into the model, so the loop returns nothing.
\<close>

fun replace_layers ::
  "(config \<Rightarrow> error + layer) \<Rightarrow> (cfg \<times> config) list \<Rightarrow> layer list \<Rightarrow> error + unit" where
  "replace_layers build d [] = Inr ()"
| "replace_layers build d (l # ls) =
     (case dict_get d (CStr (layer_name l)) of
        None \<Rightarrow> Inl (KeyError (layer_name l))
      | Some c \<Rightarrow> and_then (deserialize build c) (\<lambda>replacement_layer. replace_layers build d ls))"

text \<open>
  \<open>from_config\<close>: the new model is built with the default \<open>bias_init\<close>; \<open>auto_name\<close>
  and \<open>w\<close> are the name and the weights that Keras gives to it.
\<close>

definition from_config ::
  "string \<Rightarrow> weights \<Rightarrow> (config \<Rightarrow> error + layer) \<Rightarrow> model_config \<Rightarrow> error + CNNModel" where
  "from_config auto_name w build config =
     (let model = CNNModel_init auto_name w (cfg_voc_size config) (cfg_n_classes config) 0.5
                    (cfg_name config)
      in and_then (layer_configs_of (cfg_layers config)) (\<lambda>d.
         and_then (replace_layers build d (layers model)) (\<lambda>u. Inr model)))"

subsection \<open>A concrete model\<close>

text \<open>Weights under which every logit is 0, and models with two and with three classes.\<close>

definition demo_weights :: weights where
  "demo_weights =
     \<lparr>embeddings = (\<lambda>k. [0, 0, 0, 0]), resize = (\<lambda>x. replicate 100 (hd x)),
      hidden = (\<lambda>training x. [real (length x), 1]), kernel = (\<lambda>k j. 0), bias = (\<lambda>j. 0)\<rparr>"

definition demo_model :: "nat \<Rightarrow> CNNModel" where
  "demo_model n = CNNModel_init ''max_pooling1d'' demo_weights 5 n 0.5 ''cnnmodel''"

lemma and_then_Inr_iff:
  "and_then m f = Inr y \<longleftrightarrow> (\<exists>x. m = Inr x \<and> f x = Inr y)"
  by (cases m) (simp_all add: and_then_def)

lemma length_shuffle_raw: "length (fst (shuffle_raw ri k r xs)) = length xs"
  by (induction k arbitrary: r xs) (simp_all split: prod.splits)

lemma mset_shuffle_raw:
  "bounded_draws ri \<Longrightarrow> k \<le> length xs - 1 \<Longrightarrow> mset (fst (shuffle_raw ri k r xs)) = mset xs"
proof (induction k arbitrary: r xs)
  case 0
  then show ?case by simp
next
  case (Suc k)
  obtain j r' where d: "ri r (Suc k) = (j, r')" by (cases "ri r (Suc k)")
  from Suc.prems(1) have "fst (ri r (Suc k)) \<le> Suc k"
    unfolding bounded_draws_def by blast
  with d have j: "j \<le> Suc k" by simp
  from Suc.prems(2) have k: "Suc k < length xs" by simp
  define ys where "ys = xs[j := xs ! Suc k, Suc k := xs ! j]"
  have m: "mset ys = mset xs"
    unfolding ys_def using k j by (simp add: mset_swap)
  have "length ys = length xs" by (simp add: ys_def)
  with k have "k \<le> length ys - 1" by simp
  from Suc.IH [OF Suc.prems(1) this] m d show ?case
    by (simp add: ys_def)
qed

lemma length_rg_shuffle: "length (fst (rg_shuffle ri r xs)) = length xs"
  by (simp add: rg_shuffle_def length_shuffle_raw)

lemma mset_rg_shuffle: "bounded_draws ri \<Longrightarrow> mset (fst (rg_shuffle ri r xs)) = mset xs"
  by (simp add: rg_shuffle_def mset_shuffle_raw)

lemma length_parse_all: "parse_all f fld ps ids = Inr ss \<Longrightarrow> length ss = length ids"
  by (induction ids arbitrary: ss)
     (auto simp: and_then_Inr_iff split: if_splits sum.splits)

lemma length_pad_sequences: "pad_sequences sequences maxlen = Inr X \<Longrightarrow> length X = length sequences"
  by (auto simp: pad_sequences_def split: option.splits list.splits if_splits)

lemma length_pad_each: "pad_each cs maxlen = Inr X \<Longrightarrow> length X = length cs"
  by (induction cs arbitrary: X) (auto simp: and_then_Inr_iff)

lemma length_take_labels: "take_labels ls ids = Inr y \<Longrightarrow> length y = length ids"
  by (auto simp: take_labels_def split: if_splits)

lemma length_to_categorical: "to_categorical y nc = Inr c \<Longrightarrow> length c = length y"
  by (auto simp: to_categorical_def and_then_Inr_iff split: if_splits)

lemma data_generation_sizes:
  "data_generation g ids = Inr (X, y) \<Longrightarrow> len_X X = length ids \<and> length y = length ids"
  by (auto simp: data_generation_def and_then_Inr_iff split: if_splits
      dest!: length_parse_all length_pad_sequences length_pad_each length_take_labels
        length_to_categorical)

lemma slice_bound_nonneg: "0 \<le> i \<Longrightarrow> slice_bound n i = min n (nat i)"
  by (simp add: slice_bound_def)

lemma div_bounds:
  fixes n bs :: int
  assumes "0 < bs"
  shows "n div bs * bs \<le> n" and "n < (n div bs + 1) * bs"
proof -
  have "n = n div bs * bs + n mod bs" by simp
  moreover have "0 \<le> n mod bs" "n mod bs < bs" using assms by simp_all
  ultimately show "n div bs * bs \<le> n" by linarith
  have "(n div bs + 1) * bs = n div bs * bs + bs" by (simp add: algebra_simps)
  with \<open>n = n div bs * bs + n mod bs\<close> \<open>n mod bs < bs\<close>
  show "n < (n div bs + 1) * bs" by linarith
qed

lemma py_slice_nat:
  "py_slice xs (int a) (int b) =
     take (min (length xs) b - min (length xs) a) (drop (min (length xs) a) xs)"
  by (simp add: py_slice_def slice_bound_def)

lemma batch_bounds_nat:
  assumes "0 < bs" "0 \<le> i"
  obtains a c where "i * bs = int a" "(i + 1) * bs = int (a + c)" "bs = int c"
proof -
  have "0 \<le> i * bs" using assms by simp
  then obtain a where a: "i * bs = int a" using nonneg_int_cases by blast
  obtain c where c: "bs = int c" using assms(1) by (metis nonneg_int_cases less_le)
  have "(i + 1) * bs = i * bs + bs" by (simp add: algebra_simps)
  then have "(i + 1) * bs = int (a + c)" using a c by simp
  with a c that show thesis by blast
qed

lemma length_py_slice_full:
  assumes bs: "0 < bs" and i: "0 \<le> i" "i < int (length xs) div bs"
  shows "length (py_slice xs (i * bs) ((i + 1) * bs)) = nat bs"
proof -
  have "i + 1 \<le> int (length xs) div bs" using i by simp
  then have "(i + 1) * bs \<le> int (length xs) div bs * bs"
    using bs by (simp add: mult_right_mono)
  also have "\<dots> \<le> int (length xs)" using bs by (rule div_bounds)
  finally have e: "(i + 1) * bs \<le> int (length xs)" .
  obtain a c where ac: "i * bs = int a" "(i + 1) * bs = int (a + c)" "bs = int c"
    using bs i(1) by (rule batch_bounds_nat)
  from e ac(2) have "a + c \<le> length xs" by simp
  then show ?thesis
    unfolding ac(1) ac(2) py_slice_nat by (simp add: ac(3) min_def) arith
qed

lemma length_py_slice_beyond:
  assumes bs: "0 < bs" and i: "int (length xs) div bs \<le> i"
  shows "length (py_slice xs (i * bs) ((i + 1) * bs)) = nat (int (length xs) - i * bs)"
    and "int (length xs) - i * bs < bs"
proof -
  have i0: "0 \<le> i"
    using i bs by (meson dual_order.trans of_nat_0_le_iff pos_imp_zdiv_nonneg_iff)
  have "int (length xs) < (int (length xs) div bs + 1) * bs" using bs by (rule div_bounds)
  also have "\<dots> \<le> (i + 1) * bs" using i bs by (simp add: mult_right_mono)
  finally have e: "int (length xs) < (i + 1) * bs" .
  obtain a c where ac: "i * bs = int a" "(i + 1) * bs = int (a + c)" "bs = int c"
    using bs i0 by (rule batch_bounds_nat)
  from e ac(2) have l: "length xs < a + c" by simp
  then show "length (py_slice xs (i * bs) ((i + 1) * bs)) = nat (int (length xs) - i * bs)"
    unfolding ac(1) ac(2) py_slice_nat by (simp add: min_def) arith
  have "(i + 1) * bs = i * bs + bs" by (simp add: algebra_simps)
  with e show "int (length xs) - i * bs < bs" by linarith
qed

lemma py_slices_disjoint:
  assumes dx: "distinct xs" and bs: "0 < bs" and ij: "0 \<le> i" "i < j"
  shows "set (py_slice xs (i * bs) ((i + 1) * bs)) \<inter> set (py_slice xs (j * bs) ((j + 1) * bs)) = {}"
proof -
  have le: "(i + 1) * bs \<le> j * bs" using ij bs by (simp add: mult_right_mono)
  obtain a c where ac: "i * bs = int a" "(i + 1) * bs = int (a + c)" "bs = int c"
    using bs ij(1) by (rule batch_bounds_nat)
  have "0 \<le> j" using ij by simp
  with bs obtain b d where bd: "j * bs = int b" "(j + 1) * bs = int (b + d)" "bs = int d"
    by (rule batch_bounds_nat)
  from le ac(2) bd(1) have ab: "a + c \<le> b" by simp
  define e1 where "e1 = min (length xs) (a + c)"
  define s2 where "s2 = min (length xs) b"
  have "e1 \<le> s2" unfolding e1_def s2_def using ab by simp
  then have dis: "set (take e1 xs) \<inter> set (drop s2 xs) = {}"
    using dx by (rule set_take_disj_set_drop_if_distinct [rotated])
  have a: "set (py_slice xs (i * bs) ((i + 1) * bs)) \<subseteq> set (take e1 xs)"
    unfolding ac(1) ac(2) py_slice_nat e1_def [symmetric]
    by (metis drop_take set_drop_subset)
  have b: "set (py_slice xs (j * bs) ((j + 1) * bs)) \<subseteq> set (drop s2 xs)"
    unfolding bd(1) bd(2) py_slice_nat s2_def [symmetric]
    by (rule set_take_subset)
  from a b dis show ?thesis by blast
qed

lemma set_py_slice: "set (py_slice xs a b) \<subseteq> set xs"
  unfolding py_slice_def by (meson set_take_subset set_drop_subset subset_trans)

lemma distinct_py_slice: "distinct xs \<Longrightarrow> distinct (py_slice xs a b)"
  unfolding py_slice_def by simp

lemma on_epoch_end_shuffle:
  "shuffle g \<Longrightarrow> rg g = Some r \<Longrightarrow>
   on_epoch_end e g =
     Inr (g\<lparr>rg := Some (snd (rg_shuffle (random_interval e) r (arange (length (labels g))))),
            indexes := Some (fst (rg_shuffle (random_interval e) r (arange (length (labels g)))))\<rparr>)"
  by (simp add: on_epoch_end_def split: prod.splits)

lemma on_epoch_end_no_shuffle: "\<not> shuffle g \<Longrightarrow> on_epoch_end e g = Inr g"
  by (simp add: on_epoch_end_def)

lemma on_epoch_end_cases:
  assumes "on_epoch_end e g = Inr g'"
  obtains (same) "\<not> shuffle g" "g' = g"
  | (reshuffled) r where "shuffle g" "rg g = Some r"
      "g' = g\<lparr>rg := Some (snd (rg_shuffle (random_interval e) r (arange (length (labels g))))),
             indexes := Some (fst (rg_shuffle (random_interval e) r (arange (length (labels g)))))\<rparr>"
proof (cases "shuffle g")
  case False
  have "g' = g" using assms False by (simp add: on_epoch_end_no_shuffle)
  with False show ?thesis by (rule same)
next
  case True
  with assms obtain r where r: "rg g = Some r"
    by (cases "rg g") (simp_all add: on_epoch_end_def)
  have "Inr g' = on_epoch_end e g" using assms by simp
  also note on_epoch_end_shuffle [OF True r, of e]
  finally show ?thesis using reshuffled [OF True r] by blast
qed

lemma on_epoch_end_keeps:
  assumes "on_epoch_end e g = Inr g'"
  shows "labels g' = labels g \<and> batch_size g' = batch_size g \<and> shuffle g' = shuffle g \<and>
     parser g' = parser g \<and> paths g' = paths g \<and> folder g' = folder g \<and>
     sequence_length g' = sequence_length g \<and> n_classes g' = n_classes g"
  using assms by (cases rule: on_epoch_end_cases) simp_all

lemma on_epoch_end_lengths_ok:
  assumes "on_epoch_end e g = Inr g'" "lengths_ok g"
  shows "lengths_ok g'"
  using assms(1)
proof (cases rule: on_epoch_end_cases)
  case same
  with assms(2) show ?thesis by simp
next
  case (reshuffled r)
  then show ?thesis by (simp add: lengths_ok_def length_rg_shuffle arange_def)
qed

lemma on_epoch_end_usable:
  assumes "bounded_draws (random_interval e)" "usable g"
  shows "\<exists>g'. on_epoch_end e g = Inr g' \<and> usable g'"
proof -
  from assms(2) obtain r where r: "shuffle g" "rg g = Some r"
    by (auto simp: usable_def)
  show ?thesis
    unfolding on_epoch_end_shuffle [OF r]
    using assms(1) r(1) by (simp add: usable_def is_permutation_def mset_rg_shuffle)
qed

lemma epochs_keeps:
  "epochs e k g = Inr g' \<Longrightarrow>
     labels g' = labels g \<and> batch_size g' = batch_size g \<and> shuffle g' = shuffle g \<and>
     parser g' = parser g \<and> paths g' = paths g \<and> folder g' = folder g \<and>
     sequence_length g' = sequence_length g \<and> n_classes g' = n_classes g"
proof (induction k arbitrary: g)
  case 0
  then show ?case by simp
next
  case (Suc k)
  then obtain h where h: "on_epoch_end e g = Inr h" "epochs e k h = Inr g'"
    by (auto simp: and_then_Inr_iff)
  from Suc.IH [OF h(2)] on_epoch_end_keeps [OF h(1)] show ?case by simp
qed

lemma epochs_lengths_ok: "epochs e k g = Inr g' \<Longrightarrow> lengths_ok g \<Longrightarrow> lengths_ok g'"
proof (induction k arbitrary: g)
  case 0
  then show ?case by simp
next
  case (Suc k)
  then obtain h where h: "on_epoch_end e g = Inr h" "epochs e k h = Inr g'"
    by (auto simp: and_then_Inr_iff)
  from on_epoch_end_lengths_ok [OF h(1) Suc.prems(2)] Suc.IH [OF h(2)] show ?case by simp
qed

lemma epochs_usable:
  "bounded_draws (random_interval e) \<Longrightarrow> usable g \<Longrightarrow> \<exists>g'. epochs e k g = Inr g' \<and> usable g'"
proof (induction k arbitrary: g)
  case 0
  then show ?case by simp
next
  case (Suc k)
  from on_epoch_end_usable [OF Suc.prems] obtain h where h: "on_epoch_end e g = Inr h" "usable h"
    by blast
  from Suc.IH [OF Suc.prems(1) h(2)] h(1) show ?case by (simp add: and_then_def)
qed

text \<open>The object as \<open>__init__\<close> has it just before its call of \<open>on_epoch_end\<close>.\<close>

lemma init_cases:
  assumes "init e ent ps ls fld p0 bs sl nc sh rs kw = Inr g"
  obtains p where
    "on_epoch_end e
       \<lparr>paths = ps, sequence_length = sl, labels = ls, folder = fld, batch_size = bs,
        n_classes = nc, shuffle = sh,
        rg = (if sh then Some (default_rng e (case rs of None \<Rightarrow> ent | Some s \<Rightarrow> s)) else None),
        parser = p, indexes = None\<rparr> = Inr g"
  using assms unfolding init_def and_then_Inr_iff by blast

lemma init_fields:
  assumes "init e ent ps ls fld p0 bs sl nc sh rs kw = Inr g"
  shows "labels g = ls \<and> batch_size g = bs \<and> shuffle g = sh \<and> paths g = ps \<and> folder g = fld \<and>
    sequence_length g = sl \<and> n_classes g = nc"
proof -
  from assms obtain p where "on_epoch_end e
       \<lparr>paths = ps, sequence_length = sl, labels = ls, folder = fld, batch_size = bs,
        n_classes = nc, shuffle = sh,
        rg = (if sh then Some (default_rng e (case rs of None \<Rightarrow> ent | Some s \<Rightarrow> s)) else None),
        parser = p, indexes = None\<rparr> = Inr g"
    by (rule init_cases)
  from on_epoch_end_keeps [OF this] show ?thesis by simp
qed

lemma init_lengths_ok:
  assumes "init e ent ps ls fld p0 bs sl nc sh rs kw = Inr g"
  shows "lengths_ok g"
proof -
  from assms obtain p where "on_epoch_end e
       \<lparr>paths = ps, sequence_length = sl, labels = ls, folder = fld, batch_size = bs,
        n_classes = nc, shuffle = sh,
        rg = (if sh then Some (default_rng e (case rs of None \<Rightarrow> ent | Some s \<Rightarrow> s)) else None),
        parser = p, indexes = None\<rparr> = Inr g"
    by (rule init_cases)
  then show ?thesis by (rule on_epoch_end_lengths_ok) (simp add: lengths_ok_def)
qed

lemma init_usable:
  assumes "init e ent ps ls fld p0 bs sl nc True rs kw = Inr g" "bounded_draws (random_interval e)"
  shows "usable g"
proof -
  from assms(1) obtain p where "on_epoch_end e
       \<lparr>paths = ps, sequence_length = sl, labels = ls, folder = fld, batch_size = bs,
        n_classes = nc, shuffle = True,
        rg = (if True then Some (default_rng e (case rs of None \<Rightarrow> ent | Some s \<Rightarrow> s)) else None),
        parser = p, indexes = None\<rparr> = Inr g"
    by (rule init_cases)
  then show ?thesis
    using assms(2)
    by (cases rule: on_epoch_end_cases)
       (simp_all add: usable_def is_permutation_def mset_rg_shuffle)
qed

lemma init_no_shuffle:
  assumes "init e ent ps ls fld p0 bs sl nc False rs kw = Inr g"
  shows "indexes g = None \<and> \<not> shuffle g"
proof -
  from assms obtain p where "on_epoch_end e
       \<lparr>paths = ps, sequence_length = sl, labels = ls, folder = fld, batch_size = bs,
        n_classes = nc, shuffle = False,
        rg = (if False then Some (default_rng e (case rs of None \<Rightarrow> ent | Some s \<Rightarrow> s)) else None),
        parser = p, indexes = None\<rparr> = Inr g"
    by (rule init_cases)
  then show ?thesis by (cases rule: on_epoch_end_cases) simp_all
qed

lemma epochs_no_shuffle: "\<not> shuffle g \<Longrightarrow> epochs e k g = Inr g"
  by (induction k) (simp_all add: on_epoch_end_def and_then_def)

lemma demo_init:
  "init demo_env 7 [''a'', ''b'', ''c'', ''e'', ''f''] [0, 1, 0, 1, 1] ''d'' (Instance demo_parser)
     2 (Some 2) (Some 2) True (Some 42) () = Inr demo_gen"
  by (simp add: init_def and_then_def on_epoch_end_def rg_shuffle_def arange_def demo_env_def
      demo_gen_def)

lemma demo_bounded: "bounded_draws (random_interval demo_env)"
  by (simp add: bounded_draws_def demo_env_def split: list.splits)

lemma demo_getitem_0: "getitem demo_gen 0 = Inr (Array2 [[1, 1], [1, 1]], [[0, 1], [0, 1]])"
  by code_simp

lemma demo_getitem_1: "getitem demo_gen 1 = Inr (Array2 [[1, 1], [1, 0]], [[1, 0], [1, 0]])"
  by code_simp

lemma demo_getitem_2: "getitem demo_gen 2 = Inr (Array2 [[1, 1]], [[0, 1]])"
  by code_simp

lemma demo_batch_indexes: "batch_indexes demo_gen 0 = Inr [3, 4]" "batch_indexes demo_gen 1 = Inr [2, 0]"
  by code_simp+

lemma and_then_Inl_iff:
  "and_then m f = Inl e \<longleftrightarrow> m = Inl e \<or> (\<exists>x. m = Inr x \<and> f x = Inl e)"
  by (cases m) (simp_all add: and_then_def)

lemma getitem_sizes:
  assumes "getitem g i = Inr (X, y)"
  obtains ix where "indexes g = Some ix"
    "len_X X = length (py_slice ix (i * batch_size g) ((i + 1) * batch_size g))"
    "length y = length (py_slice ix (i * batch_size g) ((i + 1) * batch_size g))"
proof -
  from assms obtain ids where ids: "batch_indexes g i = Inr ids" "data_generation g ids = Inr (X, y)"
    by (auto simp: getitem_def and_then_Inr_iff)
  from ids(1) obtain ix where ix: "indexes g = Some ix"
    "ids = py_slice ix (i * batch_size g) ((i + 1) * batch_size g)"
    by (auto simp: batch_indexes_def split: option.splits)
  from data_generation_sizes [OF ids(2)] ix that show thesis by simp
qed

subsection \<open>Claim C10: a generator built with \<open>shuffle=False\<close>\<close>

text \<open>
  C10. When \<open>__init__\<close> is given \<open>shuffle=False\<close>, \<open>self.indexes\<close> is not assigned at
  construction and stays unassigned through any number of epoch resets (which leave the object
  as it is), so \<open>__getitem__\<close> raises AttributeError for every batch index, whatever the
  parser is: no sample is parsed.
\<close>

theorem no_shuffle_unusable:
  assumes "init e entropy ps ls fld p0 bs sl nc False rs kw = Inr g"
  shows "indexes g = None \<and> epochs e k g = Inr g \<and>
    getitem g i = Inl AttributeError \<and> getitem (g\<lparr>parser := q\<rparr>) i = Inl AttributeError"
proof -
  from init_no_shuffle [OF assms] have n: "indexes g = None" "\<not> shuffle g" by simp_all
  from n(2) have "epochs e k g = Inr g" by (rule epochs_no_shuffle)
  moreover from n(1) have "getitem g i = Inl AttributeError"
    by (simp add: getitem_def batch_indexes_def and_then_def)
  moreover from n(1) have "getitem (g\<lparr>parser := q\<rparr>) i = Inl AttributeError"
    by (simp add: getitem_def batch_indexes_def and_then_def)
  ultimately show ?thesis using n(1) by simp
qed

lemma demo_init_unshuffled:
  "init demo_env 7 [''a'', ''b'', ''c'', ''e'', ''f''] [0, 1, 0, 1, 1] ''d'' (ByName ''max'')
     2 (Some 2) (Some 2) False (Some 42) () = Inr demo_gen_unshuffled"
  by (simp add: init_def and_then_def on_epoch_end_def demo_env_def demo_gen_unshuffled_def)

theorem no_shuffle_unusable_witness:
  "init demo_env 7 [''a'', ''b'', ''c'', ''e'', ''f''] [0, 1, 0, 1, 1] ''d'' (ByName ''max'')
     2 (Some 2) (Some 2) False (Some 42) () = Inr demo_gen_unshuffled \<and>
   indexes demo_gen_unshuffled = None \<and>
   epochs demo_env 3 demo_gen_unshuffled = Inr demo_gen_unshuffled \<and>
   getitem demo_gen_unshuffled 0 = Inl AttributeError"
  using no_shuffle_unusable [OF demo_init_unshuffled, where k = 3 and i = 0] demo_init_unshuffled
  by simp

subsection \<open>Claim C6: the batches of one epoch are disjoint\<close>

lemma usable_perm:
  assumes "usable g"
  obtains ix where "indexes g = Some ix" "distinct ix" "set ix = {0..<length (labels g)}"
proof -
  from assms obtain ix where ix: "indexes g = Some ix" "mset ix = mset [0..<length (labels g)]"
    by (auto simp: usable_def is_permutation_def arange_def split: option.splits)
  from ix(2) have "distinct ix" by (metis distinct_upt mset_eq_imp_distinct_iff)
  moreover from ix(2) have "set ix = {0..<length (labels g)}" by (metis mset_eq_setD set_upt)
  ultimately show thesis using ix(1) that by blast
qed

text \<open>
  C6. With shuffling, in every epoch \<open>k\<close> (given that the bit generator draws \<open>j \<le> i\<close>, as
  numpy's does) the index slices that \<open>__getitem__\<close> takes for two distinct batch indexes
  \<open>i < j\<close> below the epoch length each hold \<open>batch_size\<close> distinct sample indexes and have
  no sample index in common: they are different slices of one permutation of
  \<open>0, ..., len(labels) - 1\<close>.
\<close>

theorem batches_disjoint:
  assumes "init e entropy ps ls fld p0 bs sl nc True rs kw = Inr g0"
    and "bounded_draws (random_interval e)"
    and "0 < bs" and "0 \<le> i" and "i < j" and "j < int (length ls) div bs"
  shows "\<exists>g a b. epochs e k g0 = Inr g \<and> batch_indexes g i = Inr a \<and> batch_indexes g j = Inr b \<and>
    length a = nat bs \<and> length b = nat bs \<and> distinct a \<and> distinct b \<and>
    set a \<subseteq> {0..<length ls} \<and> set b \<subseteq> {0..<length ls} \<and> set a \<inter> set b = {}"
proof -
  from epochs_usable [OF assms(2) init_usable [OF assms(1,2)]]
  obtain g where g: "epochs e k g0 = Inr g" "usable g" by blast
  from init_fields [OF assms(1)] epochs_keeps [OF g(1)]
  have f: "labels g = ls" "batch_size g = bs" by simp_all
  from g(2) obtain ix where ix: "indexes g = Some ix" "distinct ix" "set ix = {0..<length ls}"
    unfolding f(1) [symmetric] by (rule usable_perm)
  from ix(2,3) have n: "length ix = length ls"
    by (metis card_atLeastLessThan diff_zero distinct_card)
  define a where "a = py_slice ix (i * bs) ((i + 1) * bs)"
  define b where "b = py_slice ix (j * bs) ((j + 1) * bs)"
  have ab: "batch_indexes g i = Inr a" "batch_indexes g j = Inr b"
    by (simp_all add: batch_indexes_def ix(1) f(2) a_def b_def)
  have "i < int (length ix) div bs" "0 \<le> j" "j < int (length ix) div bs"
    using assms(4-6) n by simp_all
  then have "length a = nat bs" "length b = nat bs"
    unfolding a_def b_def using assms(3,4) by (simp_all add: length_py_slice_full)
  moreover have "distinct a" "distinct b"
    unfolding a_def b_def using ix(2) by (simp_all add: distinct_py_slice)
  moreover have "set a \<subseteq> {0..<length ls}" "set b \<subseteq> {0..<length ls}"
    unfolding a_def b_def ix(3) [symmetric] by (rule set_py_slice)+
  moreover have "set a \<inter> set b = {}"
    unfolding a_def b_def using ix(2) assms(3,4,5) by (rule py_slices_disjoint)
  ultimately show ?thesis using g(1) ab by blast
qed

theorem batches_disjoint_witness:
  "init demo_env 7 [''a'', ''b'', ''c'', ''e'', ''f''] [0, 1, 0, 1, 1] ''d'' (Instance demo_parser)
     2 (Some 2) (Some 2) True (Some 42) () = Inr demo_gen \<and>
   bounded_draws (random_interval demo_env) \<and> (0::int) < 2 \<and> (0::int) \<le> 0 \<and> (0::int) < 1 \<and>
   (1::int) < int (length [0, 1, 0, 1, 1 :: int]) div 2 \<and>
   (\<exists>g a b. epochs demo_env 0 demo_gen = Inr g \<and> batch_indexes g 0 = Inr a \<and>
      batch_indexes g 1 = Inr b \<and> length a = nat 2 \<and> length b = nat 2 \<and> distinct a \<and> distinct b \<and>
      set a \<subseteq> {0..<length [0, 1, 0, 1, 1 :: int]} \<and> set b \<subseteq> {0..<length [0, 1, 0, 1, 1 :: int]} \<and>
      set a \<inter> set b = {}) \<and>
   batch_indexes demo_gen 0 = Inr [3, 4] \<and> batch_indexes demo_gen 1 = Inr [2, 0]"
proof -
  have h: "(0::int) < 2" "(0::int) \<le> 0" "(0::int) < 1"
    "(1::int) < int (length [0, 1, 0, 1, 1 :: int]) div 2" by simp_all
  from batches_disjoint [OF demo_init demo_bounded h, of 0] demo_init demo_bounded h
    demo_batch_indexes
  show ?thesis by blast
qed

subsection \<open>Claim C8: the assertion on the parser's dimensionality\<close>

lemma parse_all_not_assert: "parse_all f fld ps ids \<noteq> Inl AssertionError"
  by (induction ids) (auto simp: and_then_Inl_iff split: sum.splits)

lemma pad_sequences_not_assert: "pad_sequences ss ml \<noteq> Inl AssertionError"
  by (auto simp: pad_sequences_def split: option.splits list.splits)

lemma pad_each_not_assert: "pad_each cs ml \<noteq> Inl AssertionError"
  by (induction cs) (auto simp: and_then_Inl_iff pad_sequences_not_assert)

lemma take_labels_not_assert: "take_labels ls ids \<noteq> Inl AssertionError"
  by (simp add: take_labels_def)

lemma to_categorical_not_assert: "to_categorical y nc \<noteq> Inl AssertionError"
  by (auto simp: to_categorical_def and_then_Inl_iff max_plus_one_def
      split: option.splits list.splits)

text \<open>
  C8. \<open>__data_generation\<close> fails with AssertionError exactly when the \<open>ndims\<close> that the
  parser declares is neither 1 nor 2. The result is then the exception and no batch; the
  assertion comes before the parsing loop, so it does not depend on what the parser's calls
  do.
\<close>

theorem assertion_iff_bad_ndims:
  "data_generation g temp_IDs = Inl AssertionError \<longleftrightarrow> ndims (parser g) \<notin> {1, 2}"
  by (auto simp: data_generation_def and_then_Inl_iff parse_all_not_assert
      pad_sequences_not_assert pad_each_not_assert take_labels_not_assert
      to_categorical_not_assert)

subsection \<open>Claim C5: shuffling with a seed is deterministic\<close>

lemma on_epoch_end_reseed:
  "on_epoch_end (e\<lparr>default_rng := f\<rparr>) g = on_epoch_end e g"
  by (simp add: on_epoch_end_def split: option.splits)

lemma epochs_reseed: "epochs (e\<lparr>default_rng := f\<rparr>) k g = epochs e k g"
proof (induction k arbitrary: g)
  case 0
  show ?case by simp
next
  case (Suc k)
  have "epochs (e\<lparr>default_rng := f\<rparr>) k = epochs e k" using Suc by blast
  then show ?case by (simp add: on_epoch_end_reseed)
qed

lemma init_seeded:
  "init e entropy1 ps ls fld p0 bs sl nc sh (Some seed) kw
     = init e entropy2 ps ls fld p0 bs sl nc sh (Some seed) kw"
  by (simp add: init_def)

text \<open>
  C5. Two generators built by \<open>__init__\<close> from the same inputs and the same seed
  \<open>random_state\<close>, whatever entropy the operating system would have supplied, have the same
  index permutation after any number \<open>k\<close> of epoch resets, hence the same batch indexes and
  the same batches. The bit generator is seeded once, in \<open>__init__\<close>: the first permutation
  is drawn from \<open>default_rng(seed)\<close> and the state left by that shuffle is kept, and an epoch
  reset never consults \<open>default_rng\<close> again (replacing it by any other seeding function
  \<open>reseed\<close> changes nothing).
\<close>

theorem seeded_shuffling_deterministic:
  assumes "init e entropy1 ps ls fld p0 bs sl nc sh (Some seed) kw = Inr g1"
    and "init e entropy2 ps ls fld p0 bs sl nc sh (Some seed) kw = Inr g2"
  shows "epochs e k g1 = epochs e k g2 \<and>
    (\<forall>h1 h2 i. epochs e k g1 = Inr h1 \<longrightarrow> epochs e k g2 = Inr h2 \<longrightarrow>
       indexes h1 = indexes h2 \<and> batch_indexes h1 i = batch_indexes h2 i \<and>
       getitem h1 i = getitem h2 i) \<and>
    epochs (e\<lparr>default_rng := reseed\<rparr>) k g1 = epochs e k g1 \<and>
    (sh \<longrightarrow> indexes g1 =
         Some (fst (rg_shuffle (random_interval e) (default_rng e seed) (arange (length ls)))) \<and>
       rg g1 =
         Some (snd (rg_shuffle (random_interval e) (default_rng e seed) (arange (length ls)))))"
proof -
  from assms init_seeded [of e entropy1 ps ls fld p0 bs sl nc sh seed kw entropy2]
  have eq: "g1 = g2" by simp
  have "indexes g1 =
         Some (fst (rg_shuffle (random_interval e) (default_rng e seed) (arange (length ls)))) \<and>
       rg g1 =
         Some (snd (rg_shuffle (random_interval e) (default_rng e seed) (arange (length ls))))"
    if sh
  proof -
    from assms(1) obtain p where p: "on_epoch_end e
       \<lparr>paths = ps, sequence_length = sl, labels = ls, folder = fld, batch_size = bs,
        n_classes = nc, shuffle = sh,
        rg = (if sh then Some (default_rng e (case Some seed of None \<Rightarrow> entropy1 | Some s \<Rightarrow> s)) else None),
        parser = p, indexes = None\<rparr> = Inr g1"
      by (rule init_cases)
    then show ?thesis using that
      by (cases rule: on_epoch_end_cases) simp_all
  qed
  with eq show ?thesis by (auto simp: epochs_reseed)
qed

lemma demo_init_any_entropy:
  "init demo_env entropy [''a'', ''b'', ''c'', ''e'', ''f''] [0, 1, 0, 1, 1] ''d''
     (Instance demo_parser) 2 (Some 2) (Some 2) True (Some 42) () = Inr demo_gen"
  by (simp add: init_def and_then_def on_epoch_end_def rg_shuffle_def arange_def demo_env_def
      demo_gen_def)

theorem seeded_shuffling_deterministic_witness:
  "init demo_env 7 [''a'', ''b'', ''c'', ''e'', ''f''] [0, 1, 0, 1, 1] ''d''
     (Instance demo_parser) 2 (Some 2) (Some 2) True (Some 42) () = Inr demo_gen \<and>
   init demo_env 99 [''a'', ''b'', ''c'', ''e'', ''f''] [0, 1, 0, 1, 1] ''d''
     (Instance demo_parser) 2 (Some 2) (Some 2) True (Some 42) () = Inr demo_gen \<and>
   epochs (demo_env\<lparr>default_rng := (\<lambda>s. [])\<rparr>) 2 demo_gen = epochs demo_env 2 demo_gen \<and>
   indexes demo_gen =
     Some (fst (rg_shuffle (random_interval demo_env) (default_rng demo_env 42)
       (arange (length [0, 1, 0, 1, 1 :: int])))) \<and>
   rg demo_gen =
     Some (snd (rg_shuffle (random_interval demo_env) (default_rng demo_env 42)
       (arange (length [0, 1, 0, 1, 1 :: int]))))"
  using seeded_shuffling_deterministic [OF demo_init_any_entropy [of 7] demo_init_any_entropy [of 99],
      where k = 2 and reseed = "\<lambda>s. []"]
    demo_init_any_entropy [of 7] demo_init_any_entropy [of 99]
  by simp

subsection \<open>Claim C7: padding is trailing\<close>









subsection \<open>Claim C4: epoch length and batch sizes\<close>

lemma parse_all_succeeds:
  "(\<And>i. i \<in> set ids \<Longrightarrow> i < length ps \<and> \<not> isl (f i (path_join fld (ps ! i)))) \<Longrightarrow>
     \<exists>ss. parse_all f fld ps ids = Inr ss"
proof (induction ids)
  case Nil
  show ?case by simp
next
  case (Cons i ids)
  from Cons.prems [of i] obtain s where s: "i < length ps" "f i (path_join fld (ps ! i)) = Inr s"
    by (cases "f i (path_join fld (ps ! i))") auto
  from Cons.IH Cons.prems obtain ss where "parse_all f fld ps ids = Inr ss" by auto
  with s show ?case by (simp add: and_then_def)
qed

lemma pad_sequences_given: "0 \<le> m \<Longrightarrow> pad_sequences ss (Some m) = Inr (map (pad_post (nat m)) ss)"
  by (simp add: pad_sequences_def)

lemma pad_each_given:
  "0 \<le> m \<Longrightarrow> pad_each cs (Some m) = Inr (map (map (pad_post (nat m))) cs)"
  by (induction cs) (simp_all add: pad_sequences_given and_then_def)

lemma take_labels_in_range:
  "(\<And>i. i \<in> set ids \<Longrightarrow> i < length ls) \<Longrightarrow> take_labels ls ids = Inr (map (\<lambda>i. ls ! i) ids)"
  by (simp add: take_labels_def list_all_iff)

lemma to_categorical_fits:
  "0 < c \<Longrightarrow> list_all (\<lambda>l. - c \<le> l \<and> l < c) y \<Longrightarrow> \<exists>r. to_categorical y (Some c) = Inr r"
  by (simp add: to_categorical_def and_then_def)

lemma data_generation_succeeds:
  assumes w: "well_configured g" and ids: "\<And>i. i \<in> set ids \<Longrightarrow> i < length (labels g)"
  shows "\<exists>X y. data_generation g ids = Inr (X, y)"
proof -
  from w obtain c m where c: "n_classes g = Some c" "0 < c"
    "list_all (\<lambda>l. - c \<le> l \<and> l < c) (labels g)"
    and m: "sequence_length g = Some m" "0 \<le> m"
    and p: "length (labels g) \<le> length (paths g)"
    by (auto simp: well_configured_def labels_fit_def length_given_def every_sample_parses_def
        split: option.splits)
  have t: "take_labels (labels g) ids = Inr (map (\<lambda>i. labels g ! i) ids)"
    using ids by (rule take_labels_in_range)
  have "list_all (\<lambda>l. - c \<le> l \<and> l < c) (map (\<lambda>i. labels g ! i) ids)"
    using c(3) ids by (auto simp: list_all_iff)
  from to_categorical_fits [OF c(2) this] obtain y where
    y: "to_categorical (map (\<lambda>i. labels g ! i) ids) (Some c) = Inr y" by blast
  show ?thesis
  proof (cases "ndims (parser g) = 1")
    case True
    with w have "list_all (\<lambda>i. \<not> isl (call1 (parser g) i (path_join (folder g) (paths g ! i))))
        [0..<length (labels g)]"
      by (simp add: well_configured_def every_sample_parses_def)
    then have "i < length (paths g) \<and> \<not> isl (call1 (parser g) i (path_join (folder g) (paths g ! i)))"
      if "i \<in> set ids" for i
      using ids [OF that] p by (simp add: list_all_iff)
    from parse_all_succeeds [of ids "paths g" "call1 (parser g)" "folder g", OF this]
    obtain ss where "parse_all (call1 (parser g)) (folder g) (paths g) ids = Inr ss" by blast
    with True t y c(1) m show ?thesis
      by (simp add: data_generation_def and_then_def pad_sequences_given)
  next
    case False
    with w have d: "ndims (parser g) = 2"
      and "list_all (\<lambda>i. \<not> isl (call2 (parser g) i (path_join (folder g) (paths g ! i))))
        [0..<length (labels g)]"
      by (simp_all add: well_configured_def every_sample_parses_def)
    then have "i < length (paths g) \<and> \<not> isl (call2 (parser g) i (path_join (folder g) (paths g ! i)))"
      if "i \<in> set ids" for i
      using ids [OF that] p by (simp add: list_all_iff)
    from parse_all_succeeds [of ids "paths g" "call2 (parser g)" "folder g", OF this]
    obtain ss where "parse_all (call2 (parser g)) (folder g) (paths g) ids = Inr ss" by blast
    with d t y c(1) m show ?thesis
      by (simp add: data_generation_def and_then_def pad_each_given)
  qed
qed

lemma well_configured_cong:
  assumes "labels g' = labels g \<and> batch_size g' = batch_size g \<and> shuffle g' = shuffle g \<and>
     parser g' = parser g \<and> paths g' = paths g \<and> folder g' = folder g \<and>
     sequence_length g' = sequence_length g \<and> n_classes g' = n_classes g"
  shows "well_configured g' = well_configured g"
  using assms
  by (simp add: well_configured_def labels_fit_def length_given_def every_sample_parses_def
      cong: option.case_cong)

text \<open>
  C4, as amended. For a generator built by \<open>__init__\<close> with a batch size of at least 1, in
  any epoch: \<open>__len__\<close> returns \<open>floor(len(labels) / batch_size)\<close>; a batch that
  \<open>__getitem__\<close> returns for an index \<open>0 \<le> i\<close> below that length has exactly
  \<open>batch_size\<close> samples (rows of \<open>X\<close> and of \<open>y\<close>), and one that it returns at or beyond
  that length holds the \<open>max(0, len(labels) - i * batch_size)\<close> remaining samples, fewer
  than \<open>batch_size\<close>. With shuffling (and a bit generator that draws within its bound) no
  index \<open>i \<ge> 0\<close> is out of range: the slice of \<open>self.indexes\<close> never raises, it holds
  \<open>batch_size\<close> indexes below the epoch length and the remaining ones at or beyond it, and
  \<open>__getitem__\<close> is \<open>__data_generation\<close> on that slice; on a well-configured generator
  (the parser succeeds on every sample, \<open>paths\<close> covers the labels, the labels fit the given
  \<open>n_classes\<close>, \<open>sequence_length\<close> is given) it returns a batch for every such index.
\<close>

theorem epoch_length_and_batch_sizes:
  assumes "init e entropy ps ls fld p0 bs sl nc sh rs kw = Inr g0"
    and "epochs e k g0 = Inr g"
    and "0 < bs"
  shows "len g = Inr (int (length ls) div bs) \<and>
    (\<forall>i X y. 0 \<le> i \<longrightarrow> getitem g i = Inr (X, y) \<longrightarrow>
       (if i < int (length ls) div bs
        then len_X X = nat bs \<and> length y = nat bs
        else len_X X = nat (int (length ls) - i * bs) \<and>
             length y = nat (int (length ls) - i * bs) \<and>
             int (length ls) - i * bs < bs)) \<and>
    (sh \<longrightarrow> bounded_draws (random_interval e) \<longrightarrow>
       (\<forall>i. 0 \<le> i \<longrightarrow>
          (\<exists>ids. batch_indexes g i = Inr ids \<and>
             length ids =
               (if i < int (length ls) div bs then nat bs else nat (int (length ls) - i * bs)) \<and>
             getitem g i = data_generation g ids \<and>
             (well_configured g0 \<longrightarrow> (\<exists>X y. getitem g i = Inr (X, y))))))"
proof -
  from init_fields [OF assms(1)] epochs_keeps [OF assms(2)]
  have f: "labels g = ls" "batch_size g = bs" by simp_all
  from epochs_lengths_ok [OF assms(2) init_lengths_ok [OF assms(1)]]
  have l: "lengths_ok g" .
  have A: "len g = Inr (int (length ls) div bs)"
    using f assms(3) by (simp add: len_def)
  have B: "if i < int (length ls) div bs
        then len_X X = nat bs \<and> length y = nat bs
        else len_X X = nat (int (length ls) - i * bs) \<and>
             length y = nat (int (length ls) - i * bs) \<and>
             int (length ls) - i * bs < bs"
    if i: "0 \<le> i" and r: "getitem g i = Inr (X, y)" for i X y
  proof -
    from r obtain ix where ix: "indexes g = Some ix"
      "len_X X = length (py_slice ix (i * bs) ((i + 1) * bs))"
      "length y = length (py_slice ix (i * bs) ((i + 1) * bs))"
      unfolding f(2) [symmetric] by (rule getitem_sizes)
    from l ix(1) f(1) have n: "length ix = length ls" by (simp add: lengths_ok_def)
    show ?thesis
    proof (cases "i < int (length ls) div bs")
      case True
      then have "i < int (length ix) div bs" by (simp add: n)
      from length_py_slice_full [OF assms(3) i this] ix True show ?thesis by simp
    next
      case False
      then have "int (length ix) div bs \<le> i" by (simp add: n)
      from length_py_slice_beyond [OF assms(3) this] ix False n show ?thesis by simp
    qed
  qed
  have C: "\<exists>ids. batch_indexes g i = Inr ids \<and>
             length ids =
               (if i < int (length ls) div bs then nat bs else nat (int (length ls) - i * bs)) \<and>
             getitem g i = data_generation g ids \<and>
             (well_configured g0 \<longrightarrow> (\<exists>X y. getitem g i = Inr (X, y)))"
    if sh and b: "bounded_draws (random_interval e)" and i: "0 \<le> i" for i
  proof -
    from assms(1) \<open>sh\<close> have "init e entropy ps ls fld p0 bs sl nc True rs kw = Inr g0" by simp
    from epochs_usable [OF b init_usable [OF this b], of k] assms(2)
    have "usable g" by simp
    then obtain ix where ix: "indexes g = Some ix" "distinct ix" "set ix = {0..<length ls}"
      unfolding f(1) [symmetric] by (rule usable_perm)
    from l ix(1) f(1) have n: "length ix = length ls" by (simp add: lengths_ok_def)
    define ids where "ids = py_slice ix (i * bs) ((i + 1) * bs)"
    have bi: "batch_indexes g i = Inr ids"
      by (simp add: batch_indexes_def ix(1) f(2) ids_def)
    then have gi: "getitem g i = data_generation g ids"
      by (simp add: getitem_def and_then_def)
    have len: "length ids =
        (if i < int (length ls) div bs then nat bs else nat (int (length ls) - i * bs))"
    proof (cases "i < int (length ls) div bs")
      case True
      then have "i < int (length ix) div bs" by (simp add: n)
      from length_py_slice_full [OF assms(3) i this] True show ?thesis by (simp add: ids_def)
    next
      case False
      then have "int (length ix) div bs \<le> i" by (simp add: n)
      from length_py_slice_beyond(1) [OF assms(3) this] False n show ?thesis
        by (simp add: ids_def)
    qed
    have "\<exists>X y. getitem g i = Inr (X, y)" if w: "well_configured g0"
    proof -
      from w well_configured_cong [OF epochs_keeps [OF assms(2)]] have "well_configured g" by simp
      moreover have "j < length (labels g)" if "j \<in> set ids" for j
      proof -
        from that set_py_slice [of ix "i * bs" "(i + 1) * bs"] have "j \<in> set ix"
          by (auto simp: ids_def)
        then show ?thesis by (simp add: ix(3) f(1))
      qed
      ultimately show ?thesis unfolding gi by (rule data_generation_succeeds)
    qed
    with bi gi len show ?thesis by blast
  qed
  from A B C show ?thesis by blast
qed

lemma demo_well_configured: "well_configured demo_gen"
  by (simp add: well_configured_def every_sample_parses_def labels_fit_def length_given_def
      demo_gen_def demo_parser_def path_join_def upt_rec)

theorem epoch_length_and_batch_sizes_witness:
  "init demo_env 7 [''a'', ''b'', ''c'', ''e'', ''f''] [0, 1, 0, 1, 1] ''d'' (Instance demo_parser)
     2 (Some 2) (Some 2) True (Some 42) () = Inr demo_gen \<and>
   epochs demo_env 0 demo_gen = Inr demo_gen \<and> (0::int) < 2 \<and>
   bounded_draws (random_interval demo_env) \<and> well_configured demo_gen \<and>
   len demo_gen = Inr 2 \<and>
   getitem demo_gen 1 = Inr (Array2 [[1, 1], [1, 0]], [[1, 0], [1, 0]]) \<and>
   len_X (Array2 [[1, 1], [1, 0]]) = nat 2 \<and>
   getitem demo_gen 2 = Inr (Array2 [[1, 1]], [[0, 1]]) \<and>
   len_X (Array2 [[1, 1]]) = nat (int (length [0, 1, 0, 1, 1 :: int]) - 2 * 2) \<and>
   (\<exists>ids. batch_indexes demo_gen 2 = Inr ids \<and> length ids = nat (int (length [0, 1, 0, 1, 1 :: int]) - 2 * 2) \<and>
      getitem demo_gen 2 = data_generation demo_gen ids) \<and>
   (\<exists>X y. getitem demo_gen 7 = Inr (X, y))"
proof -
  have e: "epochs demo_env 0 demo_gen = Inr demo_gen" by simp
  have p: "(0::int) < 2" by simp
  note t = epoch_length_and_batch_sizes [OF demo_init e p]
  from t have "len demo_gen = Inr 2" by simp
  moreover from t demo_getitem_1 have "len_X (Array2 [[1, 1], [1, 0]]) = nat 2" by simp
  moreover from t demo_bounded have
    c: "0 \<le> i \<Longrightarrow> \<exists>ids. batch_indexes demo_gen i = Inr ids \<and>
      length ids = (if i < int (length [0, 1, 0, 1, 1 :: int]) div 2 then nat 2
                    else nat (int (length [0, 1, 0, 1, 1 :: int]) - i * 2)) \<and>
      getitem demo_gen i = data_generation demo_gen ids \<and>
      (well_configured demo_gen \<longrightarrow> (\<exists>X y. getitem demo_gen i = Inr (X, y)))" for i
    by blast
  from c [of 2] have "\<exists>ids. batch_indexes demo_gen 2 = Inr ids \<and>
      length ids = nat (int (length [0, 1, 0, 1, 1 :: int]) - 2 * 2) \<and>
      getitem demo_gen 2 = data_generation demo_gen ids" by auto
  moreover from c [of 7] demo_well_configured have "\<exists>X y. getitem demo_gen 7 = Inr (X, y)"
    by fastforce
  ultimately show ?thesis
    using demo_init e demo_bounded demo_well_configured demo_getitem_1 demo_getitem_2 by simp
qed

text \<open>
  C4 as stated fails: with 33 samples and batch size 16 the epoch length is 2, and requesting
  the third batch (index 2) raises nothing; it returns a batch of the one remaining sample.
\<close>

theorem third_batch_of_33_is_returned:
  "(case init demo_env 7 (replicate 33 ''a'') (replicate 33 1) ''d'' (Instance demo_parser) 16
       (Some 2) (Some 2) True (Some 42) () of
      Inl _ \<Rightarrow> False
    | Inr g \<Rightarrow>
        len g = Inr 2 \<and>
        (case getitem g 2 of Inl _ \<Rightarrow> False | Inr (X, y) \<Rightarrow> len_X X = 1 \<and> length y = 1))"
  by code_simp

section \<open>Properties of model.py\<close>

subsection \<open>Claim C3: \<open>masked_lengths\<close> on a padded row\<close>

lemma argmax_from_True: "argmax_from xs i True pos = pos"
  by (induction xs arbitrary: i) simp_all

lemma argmax_from_False_prefix:
  "argmax_from (replicate k False @ ys) i False pos = argmax_from ys (i + k) False pos"
  by (induction k arbitrary: i) simp_all

lemma rev_sequence_mask: "rev (sequence_mask l w) = replicate (w - l) False @ replicate l True"
  by (simp add: sequence_mask_def)

lemma argmax_rev_sequence_mask:
  "argmax (rev (sequence_mask l w)) = (if l = 0 then 0 else w - l)"
proof (cases "w - l")
  case 0
  then show ?thesis
    by (cases l) (simp_all add: rev_sequence_mask argmax_def argmax_from_True)
next
  case (Suc d)
  have "argmax_from (replicate d False @ replicate l True) 1 False 0 = (if l = 0 then 0 else Suc d)"
    unfolding argmax_from_False_prefix
    by (cases l) (simp_all add: argmax_from_True)
  with Suc show ?thesis
    by (simp add: rev_sequence_mask argmax_def)
qed

text \<open>
  For a row whose first \<open>l\<close> positions are True and whose other \<open>w - l\<close> positions are
  False, with \<open>1 \<le> l \<le> w\<close>, the computed length is \<open>l\<close>. For \<open>l = 0\<close> the row has no
  True: \<open>argmax\<close> is 0 on it, and the computed length is the width \<open>w\<close>.
\<close>

lemma masked_lengths_recovers:
  "0 < l \<Longrightarrow> l \<le> w \<Longrightarrow> masked_lengths w [sequence_mask l w] = Inr [int l]"
  by (simp add: masked_lengths_def argmax_rev_sequence_mask)

lemma masked_lengths_all_False:
  "0 < w \<Longrightarrow> masked_lengths w [sequence_mask 0 w] = Inr [int w]"
  by (simp add: masked_lengths_def argmax_rev_sequence_mask)

text \<open>
  C3 says that \<open>masked_lengths\<close> returns \<open>L\<close> for every \<open>L \<le> W\<close>; the docstring calls the
  function the inverse of \<open>tf.sequence_mask\<close>. At \<open>L = 0\<close>, \<open>W = 3\<close> the mask row of
  \<open>tf.sequence_mask(0, 3)\<close> is all False, and \<open>masked_lengths\<close> returns 3, not 0.
\<close>

theorem masked_lengths_of_empty_sequence:
  "sequence_mask 0 3 = [False, False, False] \<and>
   masked_lengths 3 [[False, False, False]] = Inr [3]"
  by code_simp

subsection \<open>Claim C1: the output for a contig is a probability vector\<close>

lemma sum_list_map_divide:
  fixes f :: "'a \<Rightarrow> real"
  shows "sum_list (map (\<lambda>x. f x / c) xs) = sum_list (map f xs) / c"
  by (induction xs) (simp_all add: add_divide_distrib)

lemma sum_list_exp_pos: "z \<noteq> [] \<Longrightarrow> 0 < sum_list (map exp (z :: real list))"
proof (induction z)
  case Nil
  then show ?case by simp
next
  case (Cons x z)
  have "0 \<le> sum_list (map exp z)" by (rule sum_list_nonneg) auto
  moreover have "0 < exp x" by simp
  ultimately have "0 < exp x + sum_list (map exp z)" by (rule add_pos_nonneg [rotated])
  then show ?case by simp
qed

lemma sum_list_softmax: "z \<noteq> [] \<Longrightarrow> sum_list (softmax z) = 1"
  using sum_list_exp_pos [of z] by (simp add: softmax_def sum_list_map_divide)

lemma softmax_nonneg: "p \<in> set (softmax z) \<Longrightarrow> 0 \<le> p"
proof -
  have "0 \<le> sum_list (map exp z)" by (rule sum_list_nonneg) auto
  then show "p \<in> set (softmax z) \<Longrightarrow> 0 \<le> p" by (auto simp: softmax_def)
qed

lemma length_softmax: "length (softmax z) = length z"
  by (simp add: softmax_def)

lemma length_classifier: "length (classifier m x) = model_n_classes m"
  by (simp add: classifier_def length_softmax)

lemma sum_list_classifier: "0 < model_n_classes m \<Longrightarrow> sum_list (classifier m x) = 1"
  unfolding classifier_def by (rule sum_list_softmax) simp

lemma classifier_nonneg: "p \<in> set (classifier m x) \<Longrightarrow> 0 \<le> p"
  unfolding classifier_def by (rule softmax_nonneg)

lemma column_sums:
  fixes rows :: "real list list"
  assumes "\<And>r. r \<in> set rows \<Longrightarrow> length r = c"
  shows "sum_list (map (\<lambda>j. sum_list (map (\<lambda>r. r ! j) rows)) [0..<c]) = sum_list (map sum_list rows)"
  using assms
proof (induction rows)
  case Nil
  show ?case by simp
next
  case (Cons r rows)
  have "length r = c" using Cons.prems by simp
  then have "map (\<lambda>j. r ! j) [0..<c] = r" using map_nth [of r] by simp
  then have "sum_list (map (\<lambda>j. r ! j) [0..<c]) = sum_list r" by simp
  moreover have "sum_list (map (\<lambda>j. sum_list (map (\<lambda>r. r ! j) rows)) [0..<c]) = sum_list (map sum_list rows)"
    using Cons by simp
  ultimately show ?case by (simp add: sum_list_addf)
qed

lemma entries_squeeze: "entries (squeeze row) = row"
  by (simp add: squeeze_def split: list.splits)

lemma length_globalaveragepool: "length (globalaveragepool c rows) = c"
  by (simp add: globalaveragepool_def)

lemma globalaveragepool_one:
  assumes "length r = c"
  shows "globalaveragepool c [r] = map Num r"
proof -
  have "map Num (map (\<lambda>j. r ! j) [0..<c]) = map Num r"
    using map_nth [of r] assms by simp
  then show ?thesis by (simp add: globalaveragepool_def comp_def)
qed

lemma transform_contig_valid:
  assumes "model_voc_size m = 5" and "valid_contig m contig"
  shows "transform_contig m training contig =
    Inr (squeeze (globalaveragepool (model_n_classes m)
      (map (\<lambda>node. classifier m (hidden (model_weights m) training
          (resize (model_weights m) (map (\<lambda>s. embeddings (model_weights m) (unat s)) node))))
        contig)))"
proof -
  from assms(2) have v: "list_all (list_all (\<lambda>s. unat s < model_voc_size m)) contig"
    and ne: "list_all (\<lambda>node. node \<noteq> []) contig"
    by (simp_all add: valid_contig_def list_all_iff)
  from ne have ne': "list_all (\<lambda>node. node \<noteq> [])
      (map (map (\<lambda>s. embeddings (model_weights m) (unat s))) contig)"
    by (simp add: list_all_iff)
  have e: "embed_layer m contig = Inr (map (map (\<lambda>s. embeddings (model_weights m) (unat s))) contig)"
    using v assms(1) by (simp add: embed_layer_def embed_dim_def embed_init_w_def)
  show ?thesis
    unfolding transform_contig_def e
    using ne' by (simp add: and_then_def resizer_def comp_def)
qed

lemma transform_contig_invalid:
  assumes "\<not> valid_contig m contig"
  shows "\<exists>e. transform_contig m training contig = Inl e"
proof (cases "embed_layer m contig")
  case (Inl e)
  then show ?thesis by (simp add: transform_contig_def and_then_def)
next
  case (Inr x)
  then have x: "x = map (map (\<lambda>s. embeddings (model_weights m) (unat s))) contig"
    and v: "list_all (list_all (\<lambda>s. unat s < model_voc_size m)) contig"
    by (auto simp: embed_layer_def split: if_splits)
  from v assms have "\<not> list_all (\<lambda>node. node \<noteq> []) contig"
    by (auto simp: valid_contig_def list_all_iff)
  then have "\<not> list_all (\<lambda>node. node \<noteq> []) x" by (simp add: x list_all_iff)
  with Inr show ?thesis by (simp add: transform_contig_def and_then_def resizer_def)
qed

lemma rows_of_contig:
  assumes "r \<in> set (map (\<lambda>node. classifier m (f node)) contig)"
  shows "length r = model_n_classes m" "0 < model_n_classes m \<Longrightarrow> sum_list r = 1"
    "\<And>j. j < model_n_classes m \<Longrightarrow> 0 \<le> r ! j"
proof -
  from assms obtain x where r: "r = classifier m x" by auto
  show l: "length r = model_n_classes m" by (simp add: r length_classifier)
  show "0 < model_n_classes m \<Longrightarrow> sum_list r = 1" by (simp add: r sum_list_classifier)
  show "0 \<le> r ! j" if "j < model_n_classes m" for j
  proof -
    from that l have "r ! j \<in> set r" by simp
    then show ?thesis unfolding r by (rule classifier_nonneg)
  qed
qed

lemma mean_of_distributions:
  fixes rows :: "real list list"
  assumes ne: "rows \<noteq> []"
    and len: "\<And>r. r \<in> set rows \<Longrightarrow> length r = c"
    and one: "\<And>r. r \<in> set rows \<Longrightarrow> sum_list r = 1"
    and nn: "\<And>r j. r \<in> set rows \<Longrightarrow> j < c \<Longrightarrow> 0 \<le> r ! j"
  shows "\<exists>ps. globalaveragepool c rows = map Num ps \<and> length ps = c \<and>
    list_all (\<lambda>p. 0 \<le> p) ps \<and> sum_list ps = 1"
proof -
  define ps where
    "ps = map (\<lambda>j. sum_list (map (\<lambda>r. r ! j) rows) / real (length rows)) [0..<c]"
  have e: "globalaveragepool c rows = map Num ps"
    using ne by (simp add: globalaveragepool_def ps_def comp_def)
  have "sum_list ps = sum_list (map (\<lambda>j. sum_list (map (\<lambda>r. r ! j) rows)) [0..<c]) / real (length rows)"
    by (simp add: ps_def sum_list_map_divide)
  also have "\<dots> = sum_list (map sum_list rows) / real (length rows)"
    using len by (simp add: column_sums)
  also have "sum_list (map sum_list rows) = sum_list (map (\<lambda>r. 1) rows)"
    using one by (intro arg_cong [where f = sum_list] map_cong) simp_all
  also have "\<dots> = real (length rows)" by (simp add: sum_list_triv)
  finally have s: "sum_list ps = 1" using ne by simp
  have "0 \<le> sum_list (map (\<lambda>r. r ! j) rows) / real (length rows)" if "j < c" for j
  proof -
    have "0 \<le> sum_list (map (\<lambda>r. r ! j) rows)"
      by (rule sum_list_nonneg) (use nn that in auto)
    then show ?thesis by simp
  qed
  then have p: "list_all (\<lambda>p. 0 \<le> p) ps" by (simp add: ps_def list_all_iff)
  have "length ps = c" by (simp add: ps_def)
  with e p s show ?thesis by blast
qed

text \<open>
  C1, as amended. For a model with the vocabulary size 5 of the embedding table and at least
  one class, and a contig of at least one node in which no node is empty and every symbol lies
  in \<open>[0, voc_size)\<close>, \<open>__transform_contig\<close> (training or not) returns a tensor of
  \<open>n_classes\<close> entries, all of them numbers (no NaN) that are \<open>\<ge> 0\<close> and sum to 1, in
  exact real arithmetic. For such a contig of a single node the output is that node's softmax
  output: the average of one vector is the vector itself.
\<close>

theorem contig_output_is_distribution:
  assumes "model_voc_size m = 5" and "0 < model_n_classes m"
    and "contig \<noteq> []" and "valid_contig m contig"
  shows "\<exists>out ps. transform_contig m training contig = Inr out \<and> entries out = map Num ps \<and>
            length ps = model_n_classes m \<and> list_all (\<lambda>p. 0 \<le> p) ps \<and> sum_list ps = 1 \<and>
            (\<forall>node. contig = [node] \<longrightarrow>
               out = squeeze (map Num (classifier m (hidden (model_weights m) training
                 (resize (model_weights m)
                    (map (\<lambda>s. embeddings (model_weights m) (unat s)) node))))))"
proof -
  define f where "f = (\<lambda>node :: symbol list. hidden (model_weights m) training
          (resize (model_weights m) (map (\<lambda>s. embeddings (model_weights m) (unat s)) node)))"
  define rows where "rows = map (\<lambda>node. classifier m (f node)) contig"
  define out where "out = squeeze (globalaveragepool (model_n_classes m) rows)"
  have t: "transform_contig m training contig = Inr out"
    unfolding out_def rows_def f_def by (rule transform_contig_valid [OF assms(1,4)])
  have ne: "rows \<noteq> []" using assms(3) by (simp add: rows_def)
  have "\<exists>ps. globalaveragepool (model_n_classes m) rows = map Num ps \<and>
      length ps = model_n_classes m \<and> list_all (\<lambda>p. 0 \<le> p) ps \<and> sum_list ps = 1"
    using ne
  proof (rule mean_of_distributions)
    fix r assume r: "r \<in> set rows"
    show "length r = model_n_classes m" "sum_list r = 1"
      using r rows_of_contig [of r m f contig] assms(2) by (simp_all add: rows_def)
    fix j assume "j < model_n_classes m"
    then show "0 \<le> r ! j" using r rows_of_contig(3) [of r m f contig] by (simp add: rows_def)
  qed
  then obtain ps where ps: "entries out = map Num ps" "length ps = model_n_classes m"
    "list_all (\<lambda>p. 0 \<le> p) ps" "sum_list ps = 1"
    by (auto simp: out_def entries_squeeze)
  have "out = squeeze (map Num (classifier m (f node)))" if "contig = [node]" for node
    using that by (simp add: out_def rows_def globalaveragepool_one length_classifier)
  with t ps show ?thesis unfolding f_def by blast
qed

lemma demo_model_fields: "model_voc_size (demo_model n) = 5" "model_n_classes (demo_model n) = n"
  "model_weights (demo_model n) = demo_weights"
  by (simp_all add: demo_model_def CNNModel_init_def)

lemma demo_valid: "valid_contig (demo_model n) [[1, 2, 3], [4]]" "valid_contig (demo_model n) [[4]]"
  by (simp_all add: valid_contig_def demo_model_fields)

lemma demo_transform:
  "transform_contig (demo_model 2) False [[1, 2, 3], [4]] = Inr (Vector [Num (1 / 2), Num (1 / 2)])"
  unfolding transform_contig_valid [OF demo_model_fields(1) demo_valid(1)]
  by (simp add: demo_model_fields demo_weights_def
      classifier_def softmax_def globalaveragepool_def squeeze_def upt_rec numeral_2_eq_2)

theorem contig_output_is_distribution_witness:
  "model_voc_size (demo_model 2) = 5 \<and> 0 < model_n_classes (demo_model 2) \<and>
   [[1, 2, 3], [4 :: symbol]] \<noteq> [] \<and> valid_contig (demo_model 2) [[1, 2, 3], [4]] \<and>
   transform_contig (demo_model 2) False [[1, 2, 3], [4]] = Inr (Vector [Num (1 / 2), Num (1 / 2)]) \<and>
   (\<exists>ps. entries (Vector [Num (1 / 2), Num (1 / 2)]) = map Num ps \<and>
      length ps = model_n_classes (demo_model 2) \<and> list_all (\<lambda>p. 0 \<le> p) ps \<and> sum_list ps = 1) \<and>
   valid_contig (demo_model 2) [[4]] \<and>
   (\<exists>out. transform_contig (demo_model 2) False [[4]] = Inr out \<and>
      out = squeeze (map Num (classifier (demo_model 2) (hidden (model_weights (demo_model 2)) False
        (resize (model_weights (demo_model 2))
           (map (\<lambda>s. embeddings (model_weights (demo_model 2)) (unat s)) [4 :: symbol]))))))"
proof -
  have a: "[[1, 2, 3], [4 :: symbol]] \<noteq> []" and a': "[[4 :: symbol]] \<noteq> []" by simp_all
  have b: "0 < model_n_classes (demo_model 2)" by (simp add: demo_model_fields)
  from contig_output_is_distribution [OF demo_model_fields(1) b a demo_valid(1), of False]
    contig_output_is_distribution [OF demo_model_fields(1) b a' demo_valid(2), of False]
    demo_model_fields(1) [of 2] a b demo_valid [of 2] demo_transform
  show ?thesis by auto
qed

text \<open>
  C1 as stated fails: a contig of one node with the symbol 7, outside the vocabulary of
  size 5, and a contig with an empty node are contigs of at least one node on which
  \<open>__transform_contig\<close> raises InvalidArgumentError and returns no vector.
\<close>

theorem invalid_contigs_raise:
  "transform_contig (demo_model 2) False [[7]] = Inl InvalidArgumentError \<and>
   transform_contig (demo_model 2) False [[1, 2], []] = Inl InvalidArgumentError"
  by (simp add: transform_contig_def embed_layer_def resizer_def and_then_def demo_model_fields
      embed_dim_def embed_init_w_def)

text \<open>
  The embedding table is initialised from the 5 x 4 numbers of \<open>embed_init_w\<close>: with any
  other vocabulary size the reshape fails when the layer is built, at the first call.
\<close>

lemma embedding_table_needs_voc_size_5:
  "model_voc_size m \<noteq> 5 \<Longrightarrow> transform_contig m training contig = Inl ValueError"
  by (simp add: transform_contig_def embed_layer_def and_then_def embed_dim_def embed_init_w_def)

subsection \<open>Claim C2: \<open>call\<close> on a batch\<close>

text \<open>
  The shape of \<open>__transform_contig\<close>'s result depends on the class count alone. With two
  classes every result fits the output signature \<open>[2]\<close> of \<open>map_fn\<close>, and \<open>call\<close> on a
  batch of valid contigs returns one row per contig, in input order, row \<open>i\<close> computed from
  contig \<open>i\<close> alone. With any other class count no result fits, and \<open>call\<close> on a batch
  that is not empty raises.
\<close>

lemma shape_transform_contig:
  assumes "transform_contig m training contig = Inr t"
  shows "shape t = (if model_n_classes m = 1 then [] else [model_n_classes m])"
proof -
  from assms obtain rows where t: "t = squeeze (globalaveragepool (model_n_classes m) rows)"
    by (auto simp: transform_contig_def and_then_Inr_iff)
  define row where "row = globalaveragepool (model_n_classes m) rows"
  have "length row = model_n_classes m" by (simp add: row_def length_globalaveragepool)
  then have "shape (squeeze row) = (if model_n_classes m = 1 then [] else [model_n_classes m])"
    by (cases row rule: list.exhaust; cases "tl row") (auto simp: squeeze_def split: list.splits)
  then show ?thesis by (simp add: t row_def)
qed

lemma map_fn_all_fit:
  "(\<And>x. x \<in> set xs \<Longrightarrow> \<exists>y. fn x = Inr y \<and> shape y = signature) \<Longrightarrow>
     \<exists>ys. map_fn fn xs signature = Inr ys \<and> list_all2 (\<lambda>x y. fn x = Inr y) xs ys"
proof (induction xs)
  case Nil
  show ?case by simp
next
  case (Cons x xs)
  from Cons.prems [of x] obtain y where y: "fn x = Inr y" "shape y = signature" by auto
  from Cons.IH Cons.prems obtain ys where
    "map_fn fn xs signature = Inr ys" "list_all2 (\<lambda>x y. fn x = Inr y) xs ys" by auto
  with y show ?case by (simp add: and_then_def)
qed

lemma call_two_classes:
  assumes "model_n_classes m = 2" and "model_voc_size m = 5"
    and "\<And>c. c \<in> set inputs \<Longrightarrow> valid_contig m c"
  shows "\<exists>rows. call m training inputs = Inr rows \<and>
    list_all2 (\<lambda>c row. transform_contig m (training = Some True) c = Inr row) inputs rows"
proof -
  have "\<exists>y. transform_contig m b c = Inr y \<and> shape y = [2]" if "c \<in> set inputs" for b c
  proof -
    from transform_contig_valid [OF assms(2) assms(3) [OF that], of b]
    obtain y where y: "transform_contig m b c = Inr y" by blast
    from shape_transform_contig [OF y] assms(1) y show ?thesis by simp
  qed
  from map_fn_all_fit [of inputs "transform_contig m (training = Some True)" "[2]", OF this]
  show ?thesis
    by (cases "training = Some True")
       (simp_all add: call_def transform_contig_train_def [abs_def]
          transform_contig_eval_def [abs_def])
qed

lemma call_other_class_counts:
  assumes "model_n_classes m \<noteq> 2" and "inputs \<noteq> []"
  shows "\<exists>e. call m training inputs = Inl e"
proof -
  from assms(2) obtain x xs where i: "inputs = x # xs" by (cases inputs) auto
  have "\<exists>e. map_fn (transform_contig m b) (x # xs) [2] = Inl e" for b
  proof (cases "transform_contig m b x")
    case (Inl e)
    then show ?thesis by (simp add: and_then_def)
  next
    case (Inr t)
    from shape_transform_contig [OF Inr] assms(1) have "shape t \<noteq> [2]" by simp
    with Inr show ?thesis by (simp add: and_then_def)
  qed
  then show ?thesis
    by (cases "training = Some True")
       (simp_all add: call_def i transform_contig_train_def [abs_def]
          transform_contig_eval_def [abs_def])
qed

text \<open>
  C2 says that \<open>call\<close> returns a matrix of shape \<open>batch_size x n_classes\<close> for every class
  count, and so does the docstring of \<open>call\<close>. The output signature of \<open>map_fn\<close> is the
  constant \<open>[2]\<close>: for a model with three classes \<open>call\<close> on a batch of one contig raises
  ValueError.
\<close>

theorem call_with_three_classes_fails:
  "model_n_classes (demo_model 3) = 3 \<and>
   call (demo_model 3) None [[[1, 2, 3], [4]]] = Inl ValueError"
proof -
  have n: "model_n_classes (demo_model 3) = 3" by (simp add: demo_model_fields)
  from transform_contig_valid [OF demo_model_fields(1) demo_valid(1), of 3 False]
  obtain t where t: "transform_contig (demo_model 3) False [[1, 2, 3], [4]] = Inr t" by blast
  from shape_transform_contig [OF t] n have "shape t \<noteq> [2]" by simp
  with t n show ?thesis
    by (simp add: call_def transform_contig_eval_def and_then_def)
qed

subsection \<open>Claim C9: configuration round trip\<close>

lemma replace_layers_first:
  "dict_get d (CStr (layer_name l)) = Some c \<Longrightarrow> map_of c ''class_name'' = None \<Longrightarrow>
     replace_layers build d (l # ls) = Inl ValueError"
  by (simp add: deserialize_def and_then_def)

text \<open>
  C9 says that \<open>from_config\<close> on the result of \<open>get_config\<close> yields a model with the same
  layer names and sizes. \<open>get_config\<close> stores each layer's \<open>get_config()\<close> dictionary,
  which has no \<open>class_name\<close> entry, while \<open>from_config\<close> hands that dictionary to
  \<open>tf.keras.layers.deserialize\<close>: for every model that \<open>__init__\<close> builds, the lookup of
  the first layer (\<open>embed_layer\<close>) succeeds and its deserialization raises ValueError, so no
  model is rebuilt.
\<close>

theorem from_config_of_get_config_fails:
  "from_config auto_name' w' build (get_config (CNNModel_init auto_name w voc_size n_classes0 bias_init nm))
     = Inl ValueError"
  by (simp add: from_config_def get_config_def CNNModel_init_def keras_layer_def Resizing1D_def
      base_config_def and_then_def dict_get_def deserialize_def Let_def)

text \<open>
  The second half of C9 holds of the code: a model is returned only if every layer name of
  the new model is the \<open>name\<close> of a stored layer configuration; otherwise the lookup raises
  KeyError (unless an earlier layer has already failed).
\<close>

lemma replace_layers_needs_names:
  "replace_layers build d ls = Inr u \<Longrightarrow> l \<in> set ls \<Longrightarrow> dict_get d (CStr (layer_name l)) \<noteq> None"
  by (induction ls) (auto simp: and_then_Inr_iff split: option.splits)

lemma layer_configs_of_keys:
  "layer_configs_of cs = Inr d \<Longrightarrow> dict_get d k = Some c \<Longrightarrow> c \<in> set cs \<and> map_of c ''name'' = Some k"
proof (induction cs arbitrary: d)
  case Nil
  then show ?case by (simp add: dict_get_def)
next
  case (Cons a cs)
  then obtain nm d' where d: "map_of a ''name'' = Some nm" "layer_configs_of cs = Inr d'"
    "d = (nm, a) # d'"
    by (auto simp: and_then_Inr_iff split: option.splits)
  from Cons.prems(2) have "map_of (rev d' @ [(nm, a)]) k = Some c"
    by (simp add: dict_get_def d(3))
  then consider "map_of (rev d') k = Some c" | "k = nm" "c = a"
    by (auto simp: map_add_Some_iff split: if_splits)
  then show ?case
  proof cases
    case 1
    with Cons.IH [OF d(2)] show ?thesis by (simp add: dict_get_def)
  next
    case 2
    with d(1) show ?thesis by simp
  qed
qed

lemma from_config_needs_every_name:
  assumes "from_config auto_name w build config = Inr m" and "l \<in> set (layers m)"
  shows "\<exists>c \<in> set (cfg_layers config). map_of c ''name'' = Some (CStr (layer_name l))"
proof -
  from assms(1) obtain d u where d: "layer_configs_of (cfg_layers config) = Inr d"
    and r: "replace_layers build d (layers m) = Inr u"
    by (auto simp: from_config_def Let_def and_then_Inr_iff)
  from replace_layers_needs_names [OF r assms(2)] obtain c
    where "dict_get d (CStr (layer_name l)) = Some c" by auto
  from layer_configs_of_keys [OF d this] show ?thesis by blast
qed

end
